theory Spec2Isabelle
  imports Main "HOL-Library.Word" "HOL-Library.Sublist"
begin

unbundle bit_operations_syntax

section \<open>Greenhouse controller (Estufa.c): data model\<close>

text \<open>
  The controller keeps all of its state in globals of \<^verbatim>\<open>Estufa.c\<close>. The record below has one
  field per global, under the global's own name and with its C type: \<^verbatim>\<open>uint16_t\<close> is
  \<open>16 word\<close>, \<^verbatim>\<open>uint32_t\<close> is \<open>32 word\<close>, \<^verbatim>\<open>int\<close> indices are \<open>int\<close> (they stay far from the
  limits of a 32-bit \<^verbatim>\<open>int\<close>), \<^verbatim>\<open>char\<close> is \<open>char\<close>. The three GPIO outputs the program drives with
  \<^verbatim>\<open>gpio_put\<close> and reads back with \<^verbatim>\<open>gpio_get\<close> are booleans; \<open>ultimo_envio\<close> is the local of
  \<^verbatim>\<open>main\<close> that survives from one loop iteration to the next, and \<open>uart_tx\<close> collects the
  bytes handed to \<^verbatim>\<open>uart_write_blocking\<close>.
\<close>

type_synonym u8 = "8 word"
type_synonym u16 = "16 word"
type_synonym u32 = "32 word"

record estufa =
  ldr_buffer :: "u16 list"
  ntc_buffer :: "u16 list"
  umidade_buffer :: "u16 list"
  avg_idx :: int
  ldr_sum :: u32
  ntc_sum :: u32
  umidade_sum :: u32
  g_ldr_filtrado :: u16
  g_ntc_filtrado :: u16
  g_umidade_filtrada :: u16
  g_umidade_setpoint_raw :: u16
  g_temp_setpoint_raw :: u16
  g_ldr_limiar_raw :: u16
  g_fotoperiodo_ativo :: bool
  g_meta_luz_segundos :: u32
  g_segundos_de_luz_hoje :: u32
  g_contador_1s :: u32
  g_rx_buffer :: "char list"
  g_rx_idx :: int
  g_comando_pronto :: bool
  fan_pin :: bool
  pump_pin :: bool
  led_pin :: bool
  ultimo_envio :: u32
  uart_tx :: "u8 list"

abbreviation AVG_SHIFT_BITS :: nat where "AVG_SHIFT_BITS \<equiv> 5"
abbreviation AVG_SAMPLES :: int where "AVG_SAMPLES \<equiv> 32"
abbreviation RX_BUFFER_SIZE :: int where "RX_BUFFER_SIZE \<equiv> 100"

abbreviation NUL :: char where "NUL \<equiv> CHR 0x00"
abbreviation LF :: char where "LF \<equiv> CHR 0x0A"
abbreviation CR :: char where "CR \<equiv> CHR 0x0D"

text \<open>
  The state at the moment \<^verbatim>\<open>main\<close> enters its loop: the initialisers of the globals, the
  three \<^verbatim>\<open>memset\<close> calls on the sample buffers, the three outputs driven low.
\<close>

definition init_state :: estufa where
  "init_state =
     \<lparr> ldr_buffer = replicate 32 0, ntc_buffer = replicate 32 0, umidade_buffer = replicate 32 0,
       avg_idx = 0, ldr_sum = 0, ntc_sum = 0, umidade_sum = 0,
       g_ldr_filtrado = 0, g_ntc_filtrado = 0, g_umidade_filtrada = 0,
       g_umidade_setpoint_raw = 3000, g_temp_setpoint_raw = 1600, g_ldr_limiar_raw = 2000,
       g_fotoperiodo_ativo = False,
       g_meta_luz_segundos = 14 * 3600, g_segundos_de_luz_hoje = 0, g_contador_1s = 0,
       g_rx_buffer = replicate 100 NUL, g_rx_idx = 0, g_comando_pronto = False,
       fan_pin = False, pump_pin = False, led_pin = False,
       ultimo_envio = 0, uart_tx = [] \<rparr>"

subsection \<open>Array accesses\<close>

text \<open>
  C does not check an index. A read or a write outside the array is undefined behaviour, which
  the model makes a value: \<open>None\<close>.
\<close>

definition in_bounds :: "'a list \<Rightarrow> int \<Rightarrow> bool" where
  "in_bounds xs i = (0 \<le> i \<and> i < int (length xs))"

definition store :: "'a list \<Rightarrow> int \<Rightarrow> 'a \<Rightarrow> 'a list option" where
  "store xs i v = (if in_bounds xs i then Some (xs[nat i := v]) else None)"

section \<open>The receive interrupt: on_uart_rx\<close>

text \<open>
  One pass of the body of the \<^verbatim>\<open>while (uart_is_readable(..))\<close> loop, for the character \<open>c\<close>
  that \<^verbatim>\<open>uart_getc\<close> returned.
\<close>

definition rx_char :: "char \<Rightarrow> estufa \<Rightarrow> estufa option" where
  "rx_char c s =
     (if c = LF \<or> c = CR then
        (if g_rx_idx s > 0 then
           (case store (g_rx_buffer s) (g_rx_idx s) NUL of
              None \<Rightarrow> None
            | Some b \<Rightarrow> Some (s\<lparr>g_rx_buffer := b, g_comando_pronto := True, g_rx_idx := 0\<rparr>))
         else Some s)
      else if g_rx_idx s < RX_BUFFER_SIZE - 1 then
        (case store (g_rx_buffer s) (g_rx_idx s) c of
           None \<Rightarrow> None
         | Some b \<Rightarrow> Some (s\<lparr>g_rx_buffer := b, g_rx_idx := g_rx_idx s + 1\<rparr>))
      else Some s)"

text \<open>
  One run of the interrupt handler: the characters readable from the UART while the handler
  runs, oldest first.
\<close>

fun on_uart_rx :: "char list \<Rightarrow> estufa \<Rightarrow> estufa option" where
  "on_uart_rx [] s = Some s"
| "on_uart_rx (c # cs) s = (case rx_char c s of None \<Rightarrow> None | Some s' \<Rightarrow> on_uart_rx cs s')"

section \<open>The timer callback: timer_callback\<close>

text \<open>
  The three raw ADC readings of one invocation, in the order the callback takes them
  (light, temperature, moisture).
\<close>

type_synonym adc = "u16 \<times> u16 \<times> u16"

text \<open>
  Lines 104 to 119: the moving sums, the ring buffers, the filtered values and the ring index.
  \<^verbatim>\<open>ldr_sum - ldr_buffer[avg_idx] + ldr_raw\<close> is computed in \<^verbatim>\<open>uint32_t\<close>, and the result of the
  shift is cut to \<^verbatim>\<open>uint16_t\<close>.
\<close>

definition filter_update :: "adc \<Rightarrow> estufa \<Rightarrow> estufa option" where
  "filter_update raw s =
     (case raw of (ldr_raw, ntc_raw, umidade_raw) \<Rightarrow>
        if in_bounds (ldr_buffer s) (avg_idx s) \<and> in_bounds (ntc_buffer s) (avg_idx s)
           \<and> in_bounds (umidade_buffer s) (avg_idx s)
        then
          (let i = nat (avg_idx s);
               ls = ldr_sum s - ucast (ldr_buffer s ! i) + ucast ldr_raw;
               ns = ntc_sum s - ucast (ntc_buffer s ! i) + ucast ntc_raw;
               us = umidade_sum s - ucast (umidade_buffer s ! i) + ucast umidade_raw
           in Some (s\<lparr> ldr_sum := ls, ntc_sum := ns, umidade_sum := us,
                       ldr_buffer := (ldr_buffer s)[i := ldr_raw],
                       ntc_buffer := (ntc_buffer s)[i := ntc_raw],
                       umidade_buffer := (umidade_buffer s)[i := umidade_raw],
                       g_ldr_filtrado := ucast (drop_bit AVG_SHIFT_BITS ls),
                       g_ntc_filtrado := ucast (drop_bit AVG_SHIFT_BITS ns),
                       g_umidade_filtrada := ucast (drop_bit AVG_SHIFT_BITS us),
                       avg_idx := (avg_idx s + 1) mod AVG_SAMPLES \<rparr>))
        else None)"

text \<open>Lines 127 to 131: the two locals of the once-a-second evaluation.\<close>

definition led_ligado :: "estufa \<Rightarrow> bool" where
  "led_ligado s = led_pin s"

definition tem_sol :: "estufa \<Rightarrow> bool" where
  "tem_sol s = (g_ldr_filtrado s \<le> g_ldr_limiar_raw s)"

text \<open>Lines 123 to 134: the tick counter and the daily light counter.\<close>

definition conta_luz :: "estufa \<Rightarrow> estufa" where
  "conta_luz s =
     (let s1 = s\<lparr>g_contador_1s := g_contador_1s s + 1\<rparr> in
      if g_contador_1s s1 \<ge> 10 then
        (let s2 = s1\<lparr>g_contador_1s := 0\<rparr> in
         if led_ligado s2 \<or> tem_sol s2
         then s2\<lparr>g_segundos_de_luz_hoje := g_segundos_de_luz_hoje s2 + 1\<rparr>
         else s2)
      else s1)"

definition timer_callback :: "adc \<Rightarrow> estufa \<Rightarrow> estufa option" where
  "timer_callback raw s = map_option conta_luz (filter_update raw s)"

text \<open>Consecutive invocations of the callback, one per element of the list.\<close>

fun timer_run :: "adc list \<Rightarrow> estufa \<Rightarrow> estufa option" where
  "timer_run [] s = Some s"
| "timer_run (r # rs) s = (case timer_callback r s of None \<Rightarrow> None | Some s' \<Rightarrow> timer_run rs s')"

section \<open>The command interpreter: processa_comando\<close>

subsection \<open>The C library functions it calls\<close>

text \<open>
  The C string held by a buffer: the characters before the first NUL. A buffer with no NUL in
  it holds no string (the library functions would read past its end).
\<close>

definition cstr :: "char list \<Rightarrow> string option" where
  "cstr buf = (if NUL \<in> set buf then Some (takeWhile (\<lambda>c. c \<noteq> NUL) buf) else None)"

text \<open>\<^verbatim>\<open>strstr\<close>: the offset of the first occurrence of the needle, \<open>None\<close> for \<^verbatim>\<open>NULL\<close>.\<close>

fun strstr :: "string \<Rightarrow> string \<Rightarrow> nat option" where
  "strstr [] needle = (if needle = [] then Some 0 else None)"
| "strstr (c # cs) needle =
     (if prefix needle (c # cs) then Some 0 else map_option Suc (strstr cs needle))"

text \<open>\<^verbatim>\<open>strrchr\<close>: the offset of the last occurrence of a (non-NUL) character.\<close>

fun strrchr :: "string \<Rightarrow> char \<Rightarrow> nat option" where
  "strrchr [] ch = None"
| "strrchr (c # cs) ch =
     (case strrchr cs ch of
        Some i \<Rightarrow> Some (Suc i)
      | None \<Rightarrow> if c = ch then Some 0 else None)"

text \<open>
  \<^verbatim>\<open>atoi\<close> and \<^verbatim>\<open>atol\<close>: leading white space is skipped, an optional sign is read, then decimal
  digits up to the first character that is not one; no digits give 0. On the target
  (32-bit ARM, newlib) both are \<^verbatim>\<open>strtol\<close> in base 10, and \<^verbatim>\<open>int\<close> and \<^verbatim>\<open>long\<close> are both 32 bits
  wide; a value out of range is clamped as \<^verbatim>\<open>strtol\<close> does.
\<close>

definition isspace :: "char \<Rightarrow> bool" where
  "isspace c = (c = CHR 0x20 \<or> c = CHR 0x09 \<or> c = LF \<or> c = CHR 0x0B \<or> c = CHR 0x0C \<or> c = CR)"

definition isdigit :: "char \<Rightarrow> bool" where
  "isdigit c = (48 \<le> (of_char c :: nat) \<and> (of_char c :: nat) \<le> 57)"

fun digits :: "int \<Rightarrow> string \<Rightarrow> int" where
  "digits acc [] = acc"
| "digits acc (c # cs) = (if isdigit c then digits (acc * 10 + (of_char c - 48)) cs else acc)"

definition clamp_long :: "int \<Rightarrow> int" where
  "clamp_long v = max (- (2 ^ 31)) (min (2 ^ 31 - 1) v)"

definition strtol10 :: "string \<Rightarrow> int" where
  "strtol10 str =
     (case dropWhile isspace str of
        [] \<Rightarrow> 0
      | c # cs \<Rightarrow>
          if c = CHR ''-'' then clamp_long (- digits 0 cs)
          else if c = CHR ''+'' then clamp_long (digits 0 cs)
          else clamp_long (digits 0 (c # cs)))"

definition atoi :: "string \<Rightarrow> int" where
  "atoi str = strtol10 str"

definition atol :: "string \<Rightarrow> int" where
  "atol str = strtol10 str"

subsection \<open>The interpreter\<close>

text \<open>
  \<open>valor line\<close> is \<^verbatim>\<open>valor_str + 1\<close>: the text after the last comma of the line, when
  \<^verbatim>\<open>strrchr\<close> finds one.
\<close>

definition valor :: "string \<Rightarrow> string option" where
  "valor line = map_option (\<lambda>i. drop (Suc i) line) (strrchr line (CHR '',''))"

definition processa_comando :: "estufa \<Rightarrow> estufa option" where
  "processa_comando s =
     (case cstr (g_rx_buffer s) of
        None \<Rightarrow> None
      | Some line \<Rightarrow>
          (let s0 = s\<lparr>g_comando_pronto := False\<rparr>;
               s1 =
                 (if strstr line ''SET,HUMID,'' \<noteq> None then
                    (case valor line of
                       Some v \<Rightarrow> s0\<lparr>g_umidade_setpoint_raw := word_of_int (atoi v)\<rparr>
                     | None \<Rightarrow> s0)
                  else if strstr line ''SET,TEMP,'' \<noteq> None then
                    (case valor line of
                       Some v \<Rightarrow> s0\<lparr>g_temp_setpoint_raw := word_of_int (atoi v)\<rparr>
                     | None \<Rightarrow> s0)
                  else if strstr line ''SET,LDR,'' \<noteq> None then
                    (case valor line of
                       Some v \<Rightarrow> s0\<lparr>g_ldr_limiar_raw := word_of_int (atoi v)\<rparr>
                     | None \<Rightarrow> s0)
                  else if strstr line ''SET,FOTO,'' \<noteq> None then
                    (case valor line of
                       Some v \<Rightarrow> s0\<lparr>g_fotoperiodo_ativo := ((word_of_int (atoi v) :: u16) = 1)\<rparr>
                     | None \<Rightarrow> s0)
                  else if strstr line ''SET,META_LUZ,'' \<noteq> None then
                    (case valor line of
                       Some v \<Rightarrow> s0\<lparr>g_meta_luz_segundos := word_of_int (atol v)\<rparr>
                     | None \<Rightarrow> s0)
                  else if strstr line ''RESET,TIMER_LUZ'' \<noteq> None then
                    s0\<lparr>g_segundos_de_luz_hoje := 0\<rparr>
                  else s0)
           in Some (s1\<lparr>g_rx_buffer := replicate (nat RX_BUFFER_SIZE) NUL\<rparr>)))"

section \<open>The main loop\<close>

text \<open>Lines 218 to 229: the three outputs, each a comparison of filtered values with the configuration.\<close>

definition atuadores :: "estufa \<Rightarrow> estufa" where
  "atuadores s =
     (let s1 = (if g_umidade_filtrada s > g_umidade_setpoint_raw s
                then s\<lparr>pump_pin := True\<rparr> else s\<lparr>pump_pin := False\<rparr>);
          s2 = (if g_ntc_filtrado s1 < g_temp_setpoint_raw s1
                then s1\<lparr>fan_pin := True\<rparr> else s1\<lparr>fan_pin := False\<rparr>)
      in if g_fotoperiodo_ativo s2 \<and> g_segundos_de_luz_hoje s2 < g_meta_luz_segundos s2 then
           (if g_ldr_filtrado s2 > g_ldr_limiar_raw s2
            then s2\<lparr>led_pin := True\<rparr> else s2\<lparr>led_pin := False\<rparr>)
         else s2\<lparr>led_pin := False\<rparr>)"

text \<open>Lines 239 to 256: the 13 bytes of a telemetry frame.\<close>

definition soma_pacote :: "u8 list \<Rightarrow> u8" where
  "soma_pacote bytes = foldl (\<lambda>soma b. soma + b) 0 bytes"

definition monta_pacote :: "estufa \<Rightarrow> u8 list" where
  "monta_pacote s =
     (let payload =
        [ ucast (drop_bit 8 (g_ldr_filtrado s) AND 0xFF),
          ucast (g_ldr_filtrado s AND 0xFF),
          ucast (drop_bit 8 (g_ntc_filtrado s) AND 0xFF),
          ucast (g_ntc_filtrado s AND 0xFF),
          ucast (drop_bit 8 (g_umidade_filtrada s) AND 0xFF),
          ucast (g_umidade_filtrada s AND 0xFF),
          (if led_pin s then 1 else 0),
          ucast (drop_bit 24 (g_segundos_de_luz_hoje s) AND 0xFF),
          ucast (drop_bit 16 (g_segundos_de_luz_hoje s) AND 0xFF),
          ucast (drop_bit 8 (g_segundos_de_luz_hoje s) AND 0xFF),
          ucast (g_segundos_de_luz_hoje s AND 0xFF) ]
      in payload @ [soma_pacote (take 11 payload), 0xAA])"

text \<open>
  Lines 233 to 262: the frame goes out when at least 1000 ms have passed since the last one;
  \<open>agora\<close> is the millisecond clock read in this iteration, and the difference is taken in
  \<^verbatim>\<open>uint32_t\<close>. The calls \<^verbatim>\<open>watchdog_update\<close> and \<^verbatim>\<open>sleep_ms\<close> touch none of the globals and have no
  counterpart here.
\<close>

definition telemetria :: "u32 \<Rightarrow> estufa \<Rightarrow> estufa" where
  "telemetria agora s =
     (if agora - ultimo_envio s \<ge> 1000
      then s\<lparr>ultimo_envio := agora, uart_tx := uart_tx s @ monta_pacote s\<rparr>
      else s)"

text \<open>One iteration of the \<^verbatim>\<open>while (1)\<close> loop of \<^verbatim>\<open>main\<close>.\<close>

definition main_iter :: "u32 \<Rightarrow> estufa \<Rightarrow> estufa option" where
  "main_iter agora s =
     (case (if g_comando_pronto s then processa_comando s else Some s) of
        None \<Rightarrow> None
      | Some s1 \<Rightarrow> Some (telemetria agora (atuadores s1)))"

section \<open>Executions\<close>

text \<open>
  What happens to the state after boot: a timer interrupt with its three ADC readings, a
  receive interrupt with the characters it finds, or an iteration of the main loop with the
  clock value it reads. An execution is a list of such events, in any order and number; each
  handler and each iteration runs to its end before the next event.
\<close>

datatype event = Timer adc | UartRx "char list" | MainIter u32

fun step :: "event \<Rightarrow> estufa \<Rightarrow> estufa option" where
  "step (Timer raw) s = timer_callback raw s"
| "step (UartRx cs) s = on_uart_rx cs s"
| "step (MainIter agora) s = main_iter agora s"

fun exec :: "event list \<Rightarrow> estufa \<Rightarrow> estufa option" where
  "exec [] s = Some s"
| "exec (e # es) s = (case step e s of None \<Rightarrow> None | Some s' \<Rightarrow> exec es s')"

section \<open>Vocabulary of the properties\<close>

text \<open>The samples an execution feeds to the filter: the readings of its timer events, in order.\<close>

fun amostras :: "event list \<Rightarrow> adc list" where
  "amostras [] = []"
| "amostras (Timer raw # es) = raw # amostras es"
| "amostras (UartRx cs # es) = amostras es"
| "amostras (MainIter agora # es) = amostras es"

definition canal_ldr :: "adc list \<Rightarrow> u16 list" where
  "canal_ldr h = map fst h"

definition canal_ntc :: "adc list \<Rightarrow> u16 list" where
  "canal_ntc h = map (fst \<circ> snd) h"

definition canal_umidade :: "adc list \<Rightarrow> u16 list" where
  "canal_umidade h = map (snd \<circ> snd) h"

text \<open>The last \<open>n\<close> elements of a list (all of it when it is shorter), and the sum of samples.\<close>

definition ultimas :: "nat \<Rightarrow> 'a list \<Rightarrow> 'a list" where
  "ultimas n xs = drop (length xs - n) xs"

definition soma :: "u16 list \<Rightarrow> nat" where
  "soma xs = sum_list (map unat xs)"

text \<open>
  The window of a channel after the samples \<open>h\<close>: the last 32 entries of the history that
  starts with the 32 zeros of the cleared buffer.
\<close>

definition janela :: "u16 list \<Rightarrow> u16 list" where
  "janela h = drop (length h) (replicate 32 0 @ h)"

text \<open>
  The invariant of one filter channel, for the samples \<open>h\<close> fed so far: the ring holds the
  window, oldest entry at the ring index, the sum is the sum of the ring, the filtered value
  is that sum divided by 32.
\<close>

definition canal_inv :: "u16 list \<Rightarrow> u16 list \<Rightarrow> u32 \<Rightarrow> u16 \<Rightarrow> bool" where
  "canal_inv h buf acc filt =
     (length buf = 32 \<and> unat acc = soma buf \<and> rotate (length h mod 32) buf = janela h
      \<and> unat filt = soma buf div 32)"

definition filtro_inv :: "adc list \<Rightarrow> estufa \<Rightarrow> bool" where
  "filtro_inv h s =
     (avg_idx s = int (length h mod 32)
      \<and> canal_inv (canal_ldr h) (ldr_buffer s) (ldr_sum s) (g_ldr_filtrado s)
      \<and> canal_inv (canal_ntc h) (ntc_buffer s) (ntc_sum s) (g_ntc_filtrado s)
      \<and> canal_inv (canal_umidade h) (umidade_buffer s) (umidade_sum s) (g_umidade_filtrada s))"

text \<open>The ring index and the three rings are in step: every access of the callback is in bounds.\<close>

definition buffers_ok :: "estufa \<Rightarrow> bool" where
  "buffers_ok s =
     (length (ldr_buffer s) = 32 \<and> length (ntc_buffer s) = 32 \<and> length (umidade_buffer s) = 32
      \<and> 0 \<le> avg_idx s \<and> avg_idx s < AVG_SAMPLES)"

text \<open>
  The invariant of the receive side: the buffer has its 100 bytes, the cursor is in \<open>[0, 99]\<close>,
  the last byte is NUL, and no line terminator is stored before the cursor.
\<close>

definition rx_ok :: "estufa \<Rightarrow> bool" where
  "rx_ok s =
     (length (g_rx_buffer s) = 100 \<and> 0 \<le> g_rx_idx s \<and> g_rx_idx s \<le> 99
      \<and> g_rx_buffer s ! 99 = NUL
      \<and> list_all (\<lambda>c. c \<noteq> LF \<and> c \<noteq> CR) (take (nat (g_rx_idx s)) (g_rx_buffer s)))"

text \<open>The invariant of an execution that has fed the samples \<open>h\<close> to the filter.\<close>

definition inv :: "adc list \<Rightarrow> estufa \<Rightarrow> bool" where
  "inv h s = (filtro_inv h s \<and> rx_ok s)"

text \<open>
  Light is present in a state, in the words of the specification: the grow-light output is on,
  or the filtered light is at or below the light threshold.
\<close>

definition luz_presente :: "estufa \<Rightarrow> bool" where
  "luz_presente s = (led_pin s \<or> g_ldr_filtrado s \<le> g_ldr_limiar_raw s)"

text \<open>
  Light is continuously present over the invocations of the callback on the readings \<open>rs\<close>,
  started in state \<open>s\<close>: after each of them the output is on or the filtered light is at or
  below the threshold.
\<close>

definition luz_continua :: "adc list \<Rightarrow> estufa \<Rightarrow> bool" where
  "luz_continua rs s =
     list_all (\<lambda>k. case timer_run (take k rs) s of
                      Some sk \<Rightarrow> led_pin sk \<or> g_ldr_filtrado sk \<le> g_ldr_limiar_raw sk
                    | None \<Rightarrow> False)
       [1..<Suc (length rs)]"

text \<open>The six patterns \<^verbatim>\<open>processa_comando\<close> searches for, and a line that contains one of them.\<close>

definition padroes :: "string list" where
  "padroes = [''SET,HUMID,'', ''SET,TEMP,'', ''SET,LDR,'', ''SET,FOTO,'', ''SET,META_LUZ,'',
              ''RESET,TIMER_LUZ'']"

definition reconhecido :: "string \<Rightarrow> bool" where
  "reconhecido line = list_ex (\<lambda>p. strstr line p \<noteq> None) padroes"

text \<open>The five configuration fields of two states agree.\<close>

definition mesma_config :: "estufa \<Rightarrow> estufa \<Rightarrow> bool" where
  "mesma_config s s' =
     (g_umidade_setpoint_raw s' = g_umidade_setpoint_raw s
      \<and> g_temp_setpoint_raw s' = g_temp_setpoint_raw s
      \<and> g_ldr_limiar_raw s' = g_ldr_limiar_raw s
      \<and> g_fotoperiodo_ativo s' = g_fotoperiodo_ativo s
      \<and> g_meta_luz_segundos s' = g_meta_luz_segundos s)"

text \<open>The line a state's command buffer holds.\<close>

definition linha :: "estufa \<Rightarrow> string option" where
  "linha s = cstr (g_rx_buffer s)"

section \<open>Sums of 16-bit samples\<close>

lemma soma_le: "soma xs \<le> 65535 * length xs"
proof (induction xs)
  case Nil
  show ?case by (simp add: soma_def)
next
  case (Cons x xs)
  have "unat x < 65536" using unsigned_less[of x] by simp
  with Cons show ?case by (simp add: soma_def)
qed

lemma soma_update: "i < length xs \<Longrightarrow> soma (xs[i := v]) + unat (xs ! i) = soma xs + unat v"
proof (induction xs arbitrary: i)
  case Nil
  then show ?case by simp
next
  case (Cons x xs)
  then show ?case by (cases i) (auto simp: soma_def)
qed

lemma nth_le_soma: "i < length xs \<Longrightarrow> unat (xs ! i) \<le> soma xs"
proof (induction xs arbitrary: i)
  case Nil
  then show ?case by simp
next
  case (Cons x xs)
  then show ?case by (cases i) (auto simp: soma_def intro: le_trans trans_le_add2)
qed

lemma soma_rotate1: "soma (rotate1 xs) = soma xs"
  by (cases xs) (simp_all add: soma_def)

lemma soma_rotate: "soma (rotate n xs) = soma xs"
  by (induction n) (simp_all add: soma_rotate1)

lemma soma_append: "soma (xs @ ys) = soma xs + soma ys"
  by (simp add: soma_def)

lemma soma_replicate_0: "soma (replicate n 0) = 0"
  by (induction n) (simp_all add: soma_def)

lemma unat_ucast_u16_u32: "unat (ucast (x :: u16) :: u32) = unat x"
proof -
  have "unat x < 2 ^ 16" using unsigned_less[of x] by simp
  then have "unat x < 2 ^ 32" by simp
  then show ?thesis by (simp add: unsigned_ucast_eq take_bit_nat_eq_self)
qed

text \<open>The update of the moving sum never wraps: the sum of 32 samples fits 32 bits.\<close>

lemma sum_step:
  fixes acc :: u32 and buf :: "u16 list"
  assumes len: "length buf = 32" and i: "i < 32" and s: "unat acc = soma buf"
  shows "unat (acc - ucast (buf ! i) + ucast x) = soma (buf[i := x])"
proof -
  have b': "soma (buf[i := x]) \<le> 65535 * 32" using soma_le[of "buf[i := x]"] len by simp
  have o: "unat (buf ! i) \<le> soma buf" using nth_le_soma[of i buf] len i by simp
  have u: "soma (buf[i := x]) + unat (buf ! i) = soma buf + unat x"
    using soma_update[of i buf x] len i by simp
  have le: "(ucast (buf ! i) :: u32) \<le> acc"
    using o s by (simp add: word_le_nat_alt unat_ucast_u16_u32)
  have "unat (acc - ucast (buf ! i)) = soma buf - unat (buf ! i)"
    using unat_sub[OF le] s by (simp add: unat_ucast_u16_u32)
  moreover have "soma buf - unat (buf ! i) + unat x = soma (buf[i := x])" using u o by linarith
  ultimately have "unat (acc - ucast (buf ! i)) + unat (ucast x :: u32) = soma (buf[i := x])"
    by (simp add: unat_ucast_u16_u32)
  moreover have "soma (buf[i := x]) < 2 ^ 32" using b' by simp
  ultimately show ?thesis
    by (simp add: unat_word_ariths)
qed

text \<open>The shifted sum of 32 samples fits 16 bits: the cast to \<^verbatim>\<open>uint16_t\<close> loses nothing.\<close>

lemma filt_step:
  fixes acc :: u32
  assumes "unat acc \<le> 65535 * 32"
  shows "unat (ucast (drop_bit 5 acc) :: u16) = unat acc div 32"
proof -
  have d: "unat (drop_bit 5 acc) = unat acc div 32"
    unfolding unat_drop_bit_eq by (simp add: drop_bit_eq_div)
  have "unat acc div 32 < 2 ^ 16" using assms by simp
  then have "take_bit 16 (unat (drop_bit 5 acc)) = unat acc div 32"
    unfolding d by (rule take_bit_nat_eq_self)
  then show ?thesis
    by (simp add: unsigned_ucast_eq)
qed

section \<open>The ring buffer holds the window\<close>

lemma rotate_update:
  assumes "i < length buf"
  shows "rotate (Suc i) (buf[i := x]) = tl (rotate i buf) @ [x]"
proof -
  have r: "rotate i (buf[i := x]) = x # drop (Suc i) buf @ take i buf"
    using assms by (simp add: rotate_drop_take drop_update_cancel upd_conv_take_nth_drop)
  have r0: "rotate i buf = buf ! i # drop (Suc i) buf @ take i buf"
    using assms by (simp add: rotate_drop_take Cons_nth_drop_Suc)
  show ?thesis unfolding rotate_Suc r r0 by simp
qed

lemma janela_snoc: "janela (h @ [x]) = tl (janela h) @ [x]"
proof -
  let ?ys = "replicate 32 (0 :: u16) @ h"
  have "length (drop (length h) ?ys) = 32" by simp
  then have ne: "drop (length h) ?ys \<noteq> []" by fastforce
  have a: "janela (h @ [x]) = drop (Suc (length h)) (?ys @ [x])"
    by (simp add: janela_def)
  have b: "drop (Suc (length h)) (?ys @ [x]) = tl (drop (length h) (?ys @ [x]))"
    by (simp only: drop_Suc tl_drop)
  have c: "drop (length h) (?ys @ [x]) = drop (length h) ?ys @ [x]"
    by (simp only: drop_append length_append length_replicate) simp
  have d: "tl (drop (length h) ?ys @ [x]) = tl (drop (length h) ?ys) @ [x]"
    using ne by (cases "drop (length h) ?ys") simp_all
  show ?thesis
    unfolding a b c d by (simp only: janela_def)
qed

lemma length_janela: "length (janela h) = 32"
  by (simp add: janela_def)

lemma soma_janela: "soma (janela h) = soma (ultimas 32 h)"
proof (cases "length h \<le> 32")
  case True
  then have "janela h = replicate (32 - length h) 0 @ h"
    by (simp add: janela_def)
  with True show ?thesis
    by (simp add: ultimas_def soma_append soma_replicate_0)
next
  case False
  then have "janela h = drop (length h - 32) h"
    by (simp add: janela_def)
  then show ?thesis by (simp add: ultimas_def)
qed

section \<open>The receive interrupt keeps its buffer in order\<close>

lemma store_in_bounds: "0 \<le> i \<Longrightarrow> i < int (length xs) \<Longrightarrow> store xs i v = Some (xs[nat i := v])"
  by (simp add: store_def in_bounds_def)

lemma rx_char_eq:
  assumes "rx_ok s"
  shows "rx_char c s =
     Some (if c = LF \<or> c = CR then
             (if 0 < g_rx_idx s
              then s\<lparr>g_rx_buffer := (g_rx_buffer s)[nat (g_rx_idx s) := NUL],
                     g_comando_pronto := True, g_rx_idx := 0\<rparr>
              else s)
           else if g_rx_idx s < 99
           then s\<lparr>g_rx_buffer := (g_rx_buffer s)[nat (g_rx_idx s) := c],
                  g_rx_idx := g_rx_idx s + 1\<rparr>
           else s)"
proof -
  have "0 \<le> g_rx_idx s" "g_rx_idx s < int (length (g_rx_buffer s))"
    using assms by (simp_all add: rx_ok_def)
  then have "store (g_rx_buffer s) (g_rx_idx s) v = Some ((g_rx_buffer s)[nat (g_rx_idx s) := v])" for v
    by (rule store_in_bounds)
  then show ?thesis by (simp add: rx_char_def)
qed

lemma rx_char_rx_ok:
  assumes "rx_ok s" and "rx_char c s = Some s'"
  shows "rx_ok s'"
proof -
  let ?i = "nat (g_rx_idx s)"
  let ?b = "g_rx_buffer s"
  from assms(1) have len: "length ?b = 100" and lo: "0 \<le> g_rx_idx s" and hi: "g_rx_idx s \<le> 99"
    and last: "?b ! 99 = NUL" and clean: "list_all (\<lambda>c. c \<noteq> LF \<and> c \<noteq> CR) (take ?i ?b)"
    by (simp_all add: rx_ok_def)
  have nul: "(?b[?i := NUL]) ! 99 = NUL"
    using len last by (cases "?i = 99") simp_all
  have keep: "g_rx_idx s < 99 \<Longrightarrow> (?b[?i := c]) ! 99 = NUL"
    using len last lo by simp
  have grow: "g_rx_idx s < 99 \<Longrightarrow> take (nat (g_rx_idx s + 1)) (?b[?i := c]) = take ?i ?b @ [c]"
    using len lo by (simp add: nat_add_distrib take_Suc_conv_app_nth)
  from assms(2) show ?thesis
    unfolding rx_char_eq[OF assms(1)]
    using len lo hi last clean nul keep grow
    by (auto simp: rx_ok_def split: if_splits)
qed

lemma rx_char_filtro: "rx_char c s = Some s' \<Longrightarrow> filtro_inv h s' = filtro_inv h s"
  by (auto simp: rx_char_def filtro_inv_def split: if_splits option.splits)

lemma on_uart_rx_inv:
  "rx_ok s \<Longrightarrow> \<exists>s'. on_uart_rx cs s = Some s' \<and> rx_ok s' \<and> filtro_inv h s' = filtro_inv h s"
proof (induction cs arbitrary: s)
  case Nil
  then show ?case by simp
next
  case (Cons c cs)
  from rx_char_eq[OF Cons.prems] obtain s1 where s1: "rx_char c s = Some s1" by blast
  have ok1: "rx_ok s1" using rx_char_rx_ok[OF Cons.prems s1] .
  from Cons.IH[OF ok1] obtain s' where "on_uart_rx cs s1 = Some s'" "rx_ok s'" "filtro_inv h s' = filtro_inv h s1"
    by blast
  then show ?case using s1 rx_char_filtro[OF s1, of h] by simp
qed

section \<open>The interpreter, the filter and the main loop keep the invariant\<close>

lemma cstr_Some: "rx_ok s \<Longrightarrow> \<exists>line. cstr (g_rx_buffer s) = Some line"
proof -
  assume "rx_ok s"
  then have "length (g_rx_buffer s) = 100" "g_rx_buffer s ! 99 = NUL" by (simp_all add: rx_ok_def)
  then have "99 < length (g_rx_buffer s)" by simp
  then have "g_rx_buffer s ! 99 \<in> set (g_rx_buffer s)" by (rule nth_mem)
  then have "NUL \<in> set (g_rx_buffer s)" using \<open>g_rx_buffer s ! 99 = NUL\<close> by simp
  then show ?thesis by (simp add: cstr_def)
qed

lemma pc_filtro:
  assumes "processa_comando s = Some s'"
  shows "filtro_inv h s' = filtro_inv h s"
proof -
  from assms obtain line where l: "cstr (g_rx_buffer s) = Some line"
    by (cases "cstr (g_rx_buffer s)") (simp_all add: processa_comando_def)
  have "filtro_inv h (the (processa_comando s)) = filtro_inv h s"
    by (simp add: processa_comando_def l Let_def filtro_inv_def split: option.split)
  then show ?thesis using assms by simp
qed


lemma pc_rx_ok:
  assumes "rx_ok s"
  shows "\<exists>s'. processa_comando s = Some s' \<and> rx_ok s' \<and> \<not> g_comando_pronto s'
           \<and> g_rx_buffer s' = replicate 100 NUL \<and> g_rx_idx s' = g_rx_idx s"
proof -
  from cstr_Some[OF assms] obtain line where l: "cstr (g_rx_buffer s) = Some line" by blast
  have i: "0 \<le> g_rx_idx s" "g_rx_idx s \<le> 99" using assms by (simp_all add: rx_ok_def)
  obtain s' where s': "processa_comando s = Some s'"
    by (simp add: processa_comando_def l Let_def)
  have b: "g_rx_buffer (the (processa_comando s)) = replicate 100 NUL"
    by (simp add: processa_comando_def l Let_def)
  have x: "g_rx_idx (the (processa_comando s)) = g_rx_idx s"
    by (simp add: processa_comando_def l Let_def split: option.split)
  have p: "\<not> g_comando_pronto (the (processa_comando s))"
    by (simp add: processa_comando_def l Let_def split: option.split)
  have "rx_ok s'"
    using b x i s' by (simp add: rx_ok_def list_all_length)
  then show ?thesis using s' b x p by simp
qed

lemma filter_update_inv:
  assumes "filtro_inv h s"
  shows "\<exists>s'. filter_update r s = Some s' \<and> filtro_inv (h @ [r]) s'
           \<and> g_rx_buffer s' = g_rx_buffer s \<and> g_rx_idx s' = g_rx_idx s"
proof -
  obtain x y z where r: "r = (x, y, z)" by (cases r) auto
  let ?i = "length h mod 32"
  from assms have idx: "avg_idx s = int ?i"
    and c1: "canal_inv (canal_ldr h) (ldr_buffer s) (ldr_sum s) (g_ldr_filtrado s)"
    and c2: "canal_inv (canal_ntc h) (ntc_buffer s) (ntc_sum s) (g_ntc_filtrado s)"
    and c3: "canal_inv (canal_umidade h) (umidade_buffer s) (umidade_sum s) (g_umidade_filtrada s)"
    by (simp_all add: filtro_inv_def)
  have i: "?i < 32" by simp
  have step: "canal_inv (hc @ [v]) (buf[?i := v]) (acc - ucast (buf ! ?i) + ucast v)
                (ucast (drop_bit 5 (acc - ucast (buf ! ?i) + ucast v)))"
    if c: "canal_inv hc buf acc filt" and lh: "length hc = length h" for hc buf acc filt v
  proof -
    from c have len: "length buf = 32" and sm: "unat acc = soma buf"
      and rot: "rotate ?i buf = janela hc" by (simp_all add: canal_inv_def lh)
    have s1: "unat (acc - ucast (buf ! ?i) + ucast v) = soma (buf[?i := v])"
      using sum_step[OF len i sm] .
    have "soma (buf[?i := v]) \<le> 65535 * 32" using soma_le[of "buf[?i := v]"] len by simp
    then have f1: "unat (ucast (drop_bit 5 (acc - ucast (buf ! ?i) + ucast v)) :: u16) = soma (buf[?i := v]) div 32"
      using filt_step[of "acc - ucast (buf ! ?i) + ucast v"] s1 by simp
    have "rotate (Suc ?i) (buf[?i := v]) = tl (janela hc) @ [v]"
      using rotate_update[of ?i buf v] len i rot by simp
    moreover have "rotate (Suc (length h) mod 32) (buf[?i := v]) = rotate (Suc ?i) (buf[?i := v])"
      using rotate_conv_mod[of "Suc (length h)" "buf[?i := v]"] rotate_conv_mod[of "Suc ?i" "buf[?i := v]"] len
      by (simp add: mod_Suc_eq)
    ultimately have r1: "rotate (length (hc @ [v]) mod 32) (buf[?i := v]) = janela (hc @ [v])"
      by (simp add: janela_snoc lh)
    show ?thesis using len s1 f1 r1 by (simp add: canal_inv_def)
  qed
  have lens: "length (ldr_buffer s) = 32" "length (ntc_buffer s) = 32" "length (umidade_buffer s) = 32"
    using c1 c2 c3 by (simp_all add: canal_inv_def)
  have idx': "(int ?i + 1) mod 32 = int (Suc (length h) mod 32)"
    by (simp add: zmod_int mod_simps add.commute)
  have canais: "canal_ldr (h @ [r]) = canal_ldr h @ [x]" "canal_ntc (h @ [r]) = canal_ntc h @ [y]"
    "canal_umidade (h @ [r]) = canal_umidade h @ [z]"
    by (simp_all add: r canal_ldr_def canal_ntc_def canal_umidade_def)
  show ?thesis
    using step[OF c1, of x] step[OF c2, of y] step[OF c3, of z] lens idx' canais
    by (simp add: filter_update_def r in_bounds_def idx Let_def filtro_inv_def
        canal_ldr_def canal_ntc_def canal_umidade_def)
qed


lemma conta_luz_frame:
  "filtro_inv h (conta_luz s) = filtro_inv h s" "rx_ok (conta_luz s) = rx_ok s"
  by (simp_all add: conta_luz_def Let_def filtro_inv_def rx_ok_def)

lemma timer_callback_inv:
  assumes "filtro_inv h s"
  shows "\<exists>s'. timer_callback r s = Some s' \<and> filtro_inv (h @ [r]) s' \<and> rx_ok s' = rx_ok s"
proof -
  from filter_update_inv[OF assms, of r] obtain s1 where
    "filter_update r s = Some s1" "filtro_inv (h @ [r]) s1"
    "g_rx_buffer s1 = g_rx_buffer s" "g_rx_idx s1 = g_rx_idx s" by blast
  moreover from this have "rx_ok s1 = rx_ok s" by (simp add: rx_ok_def)
  ultimately show ?thesis
    by (simp add: timer_callback_def conta_luz_frame)
qed

lemma atuadores_frame:
  "filtro_inv h (atuadores s) = filtro_inv h s" "rx_ok (atuadores s) = rx_ok s"
  by (simp_all add: atuadores_def Let_def filtro_inv_def rx_ok_def)

lemma telemetria_frame:
  "filtro_inv h (telemetria agora s) = filtro_inv h s" "rx_ok (telemetria agora s) = rx_ok s"
  by (simp_all add: telemetria_def filtro_inv_def rx_ok_def)

lemma main_iter_inv:
  assumes "rx_ok s"
  shows "\<exists>s'. main_iter agora s = Some s' \<and> rx_ok s' \<and> filtro_inv h s' = filtro_inv h s"
proof (cases "g_comando_pronto s")
  case True
  from pc_rx_ok[OF assms] obtain s1 where s1: "processa_comando s = Some s1" "rx_ok s1" by blast
  then show ?thesis
    using True pc_filtro[OF s1(1), of h]
    by (simp add: main_iter_def atuadores_frame telemetria_frame)
next
  case False
  then show ?thesis
    using assms by (simp add: main_iter_def atuadores_frame telemetria_frame)
qed


lemma step_inv:
  assumes "inv h s"
  shows "\<exists>s'. step e s = Some s' \<and> inv (h @ amostras [e]) s'"
proof (cases e)
  case (Timer r)
  then show ?thesis
    using timer_callback_inv[of h s r] assms by (auto simp: inv_def)
next
  case (UartRx cs)
  then show ?thesis
    using on_uart_rx_inv[of s cs h] assms by (auto simp: inv_def)
next
  case (MainIter agora)
  then show ?thesis
    using main_iter_inv[of s agora h] assms by (auto simp: inv_def)
qed

lemma amostras_append: "amostras (es @ fs) = amostras es @ amostras fs"
  by (induction es rule: amostras.induct) simp_all

lemma exec_inv:
  assumes "inv h s"
  shows "\<exists>s'. exec es s = Some s' \<and> inv (h @ amostras es) s'"
  using assms
proof (induction es arbitrary: h s)
  case Nil
  then show ?case by simp
next
  case (Cons e es)
  from step_inv[OF Cons.prems, of e] obtain s1 where
    s1: "step e s = Some s1" "inv (h @ amostras [e]) s1" by blast
  from Cons.IH[OF s1(2)] obtain s' where
    "exec es s1 = Some s'" "inv ((h @ amostras [e]) @ amostras es) s'" by blast
  then show ?case
    using s1(1) amostras_append[of "[e]" es] by simp
qed

lemma inv_init: "inv [] init_state"
  by (simp add: inv_def filtro_inv_def canal_inv_def rx_ok_def init_state_def janela_def
      canal_ldr_def canal_ntc_def canal_umidade_def soma_replicate_0 list_all_length)

section \<open>The moving-average filter\<close>

lemma canal_inv_janela:
  assumes "canal_inv h buf acc filt"
  shows "length buf = 32 \<and> unat acc = soma buf \<and> unat filt = unat acc div 2 ^ 5
         \<and> unat filt = soma (ultimas 32 h) div 32"
proof -
  from assms have len: "length buf = 32" and sm: "unat acc = soma buf"
    and rot: "rotate (length h mod 32) buf = janela h" and f: "unat filt = soma buf div 32"
    by (simp_all add: canal_inv_def)
  have "soma buf = soma (rotate (length h mod 32) buf)" by (simp only: soma_rotate)
  also have "\<dots> = soma (ultimas 32 h)" by (simp only: rot soma_janela)
  finally show ?thesis using len sm f by simp
qed

text \<open>
  Claim C1. Take any execution from boot: timer callbacks with arbitrary readings, receive
  interrupts and main-loop iterations in any order. It never leaves the arrays, and in the
  state it reaches, for each of the three channels, the ring has its 32 entries, the running
  sum is the sum of those entries, the filtered value is the running sum shifted right by 5,
  and it is the sum of the last 32 samples fed to the channel, divided by 32 and truncated
  (of all the samples while fewer than 32 have been fed: the entries not yet written are the
  zeros of the cleared ring).
\<close>

theorem media_movel:
  "\<exists>s. exec es init_state = Some s
     \<and> length (ldr_buffer s) = 32
     \<and> unat (ldr_sum s) = soma (ldr_buffer s)
     \<and> unat (g_ldr_filtrado s) = unat (ldr_sum s) div 2 ^ 5
     \<and> unat (g_ldr_filtrado s) = soma (ultimas 32 (canal_ldr (amostras es))) div 32
     \<and> length (ntc_buffer s) = 32
     \<and> unat (ntc_sum s) = soma (ntc_buffer s)
     \<and> unat (g_ntc_filtrado s) = unat (ntc_sum s) div 2 ^ 5
     \<and> unat (g_ntc_filtrado s) = soma (ultimas 32 (canal_ntc (amostras es))) div 32
     \<and> length (umidade_buffer s) = 32
     \<and> unat (umidade_sum s) = soma (umidade_buffer s)
     \<and> unat (g_umidade_filtrada s) = unat (umidade_sum s) div 2 ^ 5
     \<and> unat (g_umidade_filtrada s) = soma (ultimas 32 (canal_umidade (amostras es))) div 32"
proof -
  from exec_inv[OF inv_init, of es] obtain s where
    s: "exec es init_state = Some s" and i: "inv (amostras es) s" by auto
  from i have
    "canal_inv (canal_ldr (amostras es)) (ldr_buffer s) (ldr_sum s) (g_ldr_filtrado s)"
    "canal_inv (canal_ntc (amostras es)) (ntc_buffer s) (ntc_sum s) (g_ntc_filtrado s)"
    "canal_inv (canal_umidade (amostras es)) (umidade_buffer s) (umidade_sum s) (g_umidade_filtrada s)"
    by (simp_all add: inv_def filtro_inv_def)
  from this[THEN canal_inv_janela] s show ?thesis by blast
qed

section \<open>The telemetry frame\<close>

text \<open>
  Claim C2. In a state with filtered light 1000, filtered temperature 2000, filtered moisture
  3000, the grow-light output on and 90000 seconds of light today, the encoder builds the 13
  bytes 03 E8 07 D0 0B B8 01 00 01 5F 90 76 AA: the fields big-endian, then the checksum 0x76,
  which is the sum of the 11 bytes before it modulo 256, then the sentinel 0xAA. When the
  frame is due, these 13 bytes are what the main loop hands to the UART.
\<close>

theorem pacote_telemetria:
  assumes "g_ldr_filtrado s = 1000" and "g_ntc_filtrado s = 2000"
    and "g_umidade_filtrada s = 3000" and "led_pin s"
    and "g_segundos_de_luz_hoje s = 90000"
  shows "monta_pacote s =
           [0x03, 0xE8, 0x07, 0xD0, 0x0B, 0xB8, 0x01, 0x00, 0x01, 0x5F, 0x90, 0x76, 0xAA]
         \<and> length (monta_pacote s) = 13
         \<and> unat (monta_pacote s ! 11) = sum_list (map unat (take 11 (monta_pacote s))) mod 256
         \<and> monta_pacote s ! 12 = 0xAA
         \<and> (1000 \<le> agora - ultimo_envio s \<longrightarrow>
              uart_tx (telemetria agora s) = uart_tx s @
                [0x03, 0xE8, 0x07, 0xD0, 0x0B, 0xB8, 0x01, 0x00, 0x01, 0x5F, 0x90, 0x76, 0xAA])"
  using assms by (simp add: monta_pacote_def soma_pacote_def telemetria_def)

theorem pacote_telemetria_witness:
  "monta_pacote (init_state\<lparr>g_ldr_filtrado := 1000, g_ntc_filtrado := 2000,
       g_umidade_filtrada := 3000, led_pin := True, g_segundos_de_luz_hoje := 90000\<rparr>) =
     [0x03, 0xE8, 0x07, 0xD0, 0x0B, 0xB8, 0x01, 0x00, 0x01, 0x5F, 0x90, 0x76, 0xAA]
   \<and> uart_tx (telemetria 1000 (init_state\<lparr>g_ldr_filtrado := 1000, g_ntc_filtrado := 2000,
       g_umidade_filtrada := 3000, led_pin := True, g_segundos_de_luz_hoje := 90000\<rparr>)) =
     [0x03, 0xE8, 0x07, 0xD0, 0x0B, 0xB8, 0x01, 0x00, 0x01, 0x5F, 0x90, 0x76, 0xAA]"
  using pacote_telemetria[of "init_state\<lparr>g_ldr_filtrado := 1000, g_ntc_filtrado := 2000,
       g_umidade_filtrada := 3000, led_pin := True, g_segundos_de_luz_hoje := 90000\<rparr>" 1000]
  by (simp add: init_state_def)

section \<open>The actuator policy\<close>

lemma reach_rx_ok: "exec es init_state = Some s \<Longrightarrow> rx_ok s"
  using exec_inv[OF inv_init, of es] by (auto simp: inv_def)

text \<open>
  Claim C4. The actuator policy drives the grow-light output on exactly when the photoperiod
  flag is set, the seconds of light today are strictly below the daily goal, and the filtered
  light is strictly above the light threshold; otherwise it drives it off, in particular as
  soon as the counter has reached the goal. In every state an execution from boot can reach,
  an iteration of the main loop returns, and the output it leaves is this condition on the
  configuration as it stands after the iteration's command processing.
\<close>

theorem luz_de_crescimento:
  "led_pin (atuadores s) =
     (g_fotoperiodo_ativo s \<and> g_segundos_de_luz_hoje s < g_meta_luz_segundos s
      \<and> g_ldr_limiar_raw s < g_ldr_filtrado s)
   \<and> (exec es init_state = Some s \<longrightarrow>
        (\<exists>s1 s'. (if g_comando_pronto s then processa_comando s else Some s) = Some s1
           \<and> main_iter agora s = Some s'
           \<and> led_pin s' =
               (g_fotoperiodo_ativo s1 \<and> g_segundos_de_luz_hoje s1 < g_meta_luz_segundos s1
                \<and> g_ldr_limiar_raw s1 < g_ldr_filtrado s1)))"
proof -
  have a: "led_pin (atuadores t) =
     (g_fotoperiodo_ativo t \<and> g_segundos_de_luz_hoje t < g_meta_luz_segundos t
      \<and> g_ldr_limiar_raw t < g_ldr_filtrado t)" for t
    by (auto simp: atuadores_def Let_def)
  have t: "led_pin (telemetria agora t) = led_pin t" for t
    by (simp add: telemetria_def)
  have b: "\<exists>s1 s'. (if g_comando_pronto s then processa_comando s else Some s) = Some s1
           \<and> main_iter agora s = Some s'
           \<and> led_pin s' =
               (g_fotoperiodo_ativo s1 \<and> g_segundos_de_luz_hoje s1 < g_meta_luz_segundos s1
                \<and> g_ldr_limiar_raw s1 < g_ldr_filtrado s1)" if "exec es init_state = Some s"
  proof -
    from that have "rx_ok s" by (rule reach_rx_ok)
    from pc_rx_ok[OF this] obtain s0 where "processa_comando s = Some s0" by blast
    then obtain s1 where
      "(if g_comando_pronto s then processa_comando s else Some s) = Some s1"
      by (cases "g_comando_pronto s") simp_all
    then show ?thesis using a[of s1] t[of "atuadores s1"]
      by (simp add: main_iter_def)
  qed
  show ?thesis using a[of s] b by blast
qed

theorem luz_de_crescimento_witness:
  "exec [UartRx (''SET,LDR,0'' @ [LF]), MainIter 0, UartRx (''SET,FOTO,1'' @ [LF]),
         Timer (3200, 0, 0)] init_state \<noteq> None
   \<and> map_option led_pin
        (exec [UartRx (''SET,LDR,0'' @ [LF]), MainIter 0, UartRx (''SET,FOTO,1'' @ [LF]),
               Timer (3200, 0, 0), MainIter 1] init_state) = Some True"
proof -
  let ?es = "[UartRx (''SET,LDR,0'' @ [LF]), MainIter 0, UartRx (''SET,FOTO,1'' @ [LF]),
              Timer (3200, 0, 0)]"
  obtain s where s: "exec ?es init_state = Some s"
    using exec_inv[OF inv_init, of ?es] by blast
  have "map_option led_pin (exec (?es @ [MainIter 1]) init_state) = Some True"
    by code_simp
  then show ?thesis
    using s luz_de_crescimento[of s ?es 1] by simp
qed

section \<open>The light-present predicate\<close>

text \<open>
  Claim C7. With the light threshold at 2000, \<open>tem_sol\<close> holds exactly for filtered light values
  up to and including 2000: it holds at 1999 and at 2000, and fails at 2001. With the
  grow-light output off, the tick that completes a second counts it exactly in these cases.
\<close>

theorem limiar_tem_sol:
  assumes "g_ldr_limiar_raw s = 2000"
  shows "tem_sol s = (g_ldr_filtrado s \<le> 2000)
         \<and> tem_sol (s\<lparr>g_ldr_filtrado := 1999\<rparr>)
         \<and> tem_sol (s\<lparr>g_ldr_filtrado := 2000\<rparr>)
         \<and> \<not> tem_sol (s\<lparr>g_ldr_filtrado := 2001\<rparr>)
         \<and> (\<not> led_pin s \<and> g_contador_1s s = 9 \<longrightarrow>
              g_segundos_de_luz_hoje (conta_luz s) =
                (if g_ldr_filtrado s \<le> 2000 then g_segundos_de_luz_hoje s + 1
                 else g_segundos_de_luz_hoje s))"
  using assms by (simp add: tem_sol_def conta_luz_def led_ligado_def Let_def)

theorem limiar_tem_sol_witness:
  "g_ldr_limiar_raw init_state = 2000
   \<and> tem_sol (init_state\<lparr>g_ldr_filtrado := 1999\<rparr>)
   \<and> \<not> tem_sol (init_state\<lparr>g_ldr_filtrado := 2001\<rparr>)
   \<and> g_segundos_de_luz_hoje (conta_luz (init_state\<lparr>g_contador_1s := 9, g_ldr_filtrado := 2000\<rparr>)) = 1
   \<and> g_segundos_de_luz_hoje (conta_luz (init_state\<lparr>g_contador_1s := 9, g_ldr_filtrado := 2001\<rparr>)) = 0"
proof -
  have h: "g_ldr_limiar_raw init_state = 2000" by (simp add: init_state_def)
  have h1: "g_ldr_limiar_raw (init_state\<lparr>g_contador_1s := 9, g_ldr_filtrado := 2000\<rparr>) = 2000"
    and h2: "g_ldr_limiar_raw (init_state\<lparr>g_contador_1s := 9, g_ldr_filtrado := 2001\<rparr>) = 2000"
    by (simp_all add: init_state_def)
  show ?thesis
    using limiar_tem_sol[OF h] limiar_tem_sol[OF h1] limiar_tem_sol[OF h2] h
    by (simp add: init_state_def)
qed

section \<open>Commands\<close>

lemma pc_set_humid:
  assumes "linha s = Some ''SET,HUMID,1234''"
  shows "processa_comando s = Some (s\<lparr>g_comando_pronto := False, g_umidade_setpoint_raw := 1234,
            g_rx_buffer := replicate 100 NUL\<rparr>)"
proof -
  have a: "strstr ''SET,HUMID,1234'' ''SET,HUMID,'' = Some 0" by simp
  have v: "valor ''SET,HUMID,1234'' = Some ''1234''" by (simp add: valor_def)
  have n: "atoi ''1234'' = 1234"
    by (simp add: atoi_def strtol10_def clamp_long_def isspace_def isdigit_def)
  show ?thesis
    using assms by (simp add: processa_comando_def linha_def a v n del: strstr.simps)
qed

text \<open>
  Claim C8. When the buffer holds the line SET,HUMID,1234, the interpreter returns and the
  moisture setpoint is 1234. After that the actuator policy drives the pump on with filtered
  moisture 1235 and off with filtered moisture 1234; for any filtered moisture \<open>m\<close> the pump is on
  exactly when \<open>1234 < m\<close>.
\<close>

theorem set_humid_bomba:
  assumes "linha s = Some ''SET,HUMID,1234''"
  shows "\<exists>s'. processa_comando s = Some s'
           \<and> g_umidade_setpoint_raw s' = 1234
           \<and> pump_pin (atuadores (s'\<lparr>g_umidade_filtrada := 1235\<rparr>))
           \<and> \<not> pump_pin (atuadores (s'\<lparr>g_umidade_filtrada := 1234\<rparr>))
           \<and> (\<forall>m. pump_pin (atuadores (s'\<lparr>g_umidade_filtrada := m\<rparr>)) = (1234 < m))"
proof -
  have p: "pump_pin (atuadores t) = (g_umidade_setpoint_raw t < g_umidade_filtrada t)" for t
    by (simp add: atuadores_def Let_def)
  show ?thesis
    unfolding pc_set_humid[OF assms] by (simp add: p)
qed

theorem set_humid_bomba_witness:
  "map_option linha (exec [UartRx (''SET,HUMID,1234'' @ [LF])] init_state) = Some (Some ''SET,HUMID,1234'')
   \<and> (\<exists>s'. processa_comando (the (exec [UartRx (''SET,HUMID,1234'' @ [LF])] init_state)) = Some s'
           \<and> g_umidade_setpoint_raw s' = 1234
           \<and> pump_pin (atuadores (s'\<lparr>g_umidade_filtrada := 1235\<rparr>))
           \<and> \<not> pump_pin (atuadores (s'\<lparr>g_umidade_filtrada := 1234\<rparr>)))"
proof -
  have e: "map_option linha (exec [UartRx (''SET,HUMID,1234'' @ [LF])] init_state) = Some (Some ''SET,HUMID,1234'')"
    by code_simp
  then have h: "linha (the (exec [UartRx (''SET,HUMID,1234'' @ [LF])] init_state)) = Some ''SET,HUMID,1234''"
    by (cases "exec [UartRx (''SET,HUMID,1234'' @ [LF])] init_state") simp_all
  from set_humid_bomba[OF h] e show ?thesis by blast
qed

lemma pc_reset:
  assumes "linha s = Some ''RESET,TIMER_LUZ''"
  shows "processa_comando s = Some (s\<lparr>g_comando_pronto := False, g_segundos_de_luz_hoje := 0,
            g_rx_buffer := replicate 100 NUL\<rparr>)"
proof -
  have a: "strstr ''RESET,TIMER_LUZ'' ''SET,HUMID,'' = None"
    "strstr ''RESET,TIMER_LUZ'' ''SET,TEMP,'' = None"
    "strstr ''RESET,TIMER_LUZ'' ''SET,LDR,'' = None"
    "strstr ''RESET,TIMER_LUZ'' ''SET,FOTO,'' = None"
    "strstr ''RESET,TIMER_LUZ'' ''SET,META_LUZ,'' = None"
    "strstr ''RESET,TIMER_LUZ'' ''RESET,TIMER_LUZ'' = Some 0"
    by simp_all
  show ?thesis
    using assms by (simp add: processa_comando_def linha_def a del: strstr.simps)
qed

text \<open>
  Claim C9. When the buffer holds the line RESET,TIMER_LUZ, whatever the state, the
  interpreter returns, the seconds of light today are 0, and the moisture setpoint, the
  temperature setpoint, the light threshold, the photoperiod flag and the daily goal are
  what they were.
\<close>

theorem reset_timer_luz:
  assumes "linha s = Some ''RESET,TIMER_LUZ''"
  shows "\<exists>s'. processa_comando s = Some s'
           \<and> g_segundos_de_luz_hoje s' = 0
           \<and> g_umidade_setpoint_raw s' = g_umidade_setpoint_raw s
           \<and> g_temp_setpoint_raw s' = g_temp_setpoint_raw s
           \<and> g_ldr_limiar_raw s' = g_ldr_limiar_raw s
           \<and> g_fotoperiodo_ativo s' = g_fotoperiodo_ativo s
           \<and> g_meta_luz_segundos s' = g_meta_luz_segundos s"
  unfolding pc_reset[OF assms] by simp

theorem reset_timer_luz_witness:
  "map_option linha
     (exec (replicate 10 (Timer (0, 0, 0)) @ [UartRx (''RESET,TIMER_LUZ'' @ [LF])]) init_state) =
     Some (Some ''RESET,TIMER_LUZ'')
   \<and> map_option g_segundos_de_luz_hoje
     (exec (replicate 10 (Timer (0, 0, 0)) @ [UartRx (''RESET,TIMER_LUZ'' @ [LF])]) init_state) =
     Some 1
   \<and> (\<exists>s'. processa_comando (the
     (exec (replicate 10 (Timer (0, 0, 0)) @ [UartRx (''RESET,TIMER_LUZ'' @ [LF])]) init_state)) =
     Some s' \<and> g_segundos_de_luz_hoje s' = 0)"
proof -
  let ?e = "exec (replicate 10 (Timer (0, 0, 0)) @ [UartRx (''RESET,TIMER_LUZ'' @ [LF])]) init_state"
  have e: "map_option linha ?e = Some (Some ''RESET,TIMER_LUZ'')"
    by code_simp
  have g: "map_option g_segundos_de_luz_hoje ?e = Some 1"
    by code_simp
  from e have h: "linha (the ?e) = Some ''RESET,TIMER_LUZ''"
    by (cases ?e) simp_all
  from reset_timer_luz[OF h] e g show ?thesis by blast
qed

text \<open>
  Claim C5, as amended. Whatever line the buffer holds, the interpreter returns, and
  afterwards all 100 bytes of the buffer are NUL and the ready flag is reset. When the line
  contains none of the six patterns, the five configuration fields and the seconds of light
  today are unchanged.
\<close>

theorem comando_nao_reconhecido:
  assumes "linha s = Some line"
  shows "\<exists>s'. processa_comando s = Some s'
           \<and> g_rx_buffer s' = replicate 100 NUL
           \<and> \<not> g_comando_pronto s'
           \<and> (\<not> reconhecido line \<longrightarrow>
                 mesma_config s s' \<and> g_segundos_de_luz_hoje s' = g_segundos_de_luz_hoje s)"
proof -
  from assms have l: "cstr (g_rx_buffer s) = Some line" by (simp add: linha_def)
  obtain s' where s': "processa_comando s = Some s'"
    by (simp add: processa_comando_def l Let_def)
  have b: "g_rx_buffer (the (processa_comando s)) = replicate 100 NUL"
    by (simp add: processa_comando_def l Let_def)
  have p: "\<not> g_comando_pronto (the (processa_comando s))"
    by (simp add: processa_comando_def l Let_def split: option.split)
  have n: "processa_comando s = Some (s\<lparr>g_comando_pronto := False, g_rx_buffer := replicate 100 NUL\<rparr>)"
    if "\<not> reconhecido line"
    using that by (simp add: processa_comando_def l Let_def reconhecido_def padroes_def)
  have "mesma_config s s' \<and> g_segundos_de_luz_hoje s' = g_segundos_de_luz_hoje s"
    if "\<not> reconhecido line"
    using n[OF that] s' by (auto simp: mesma_config_def)
  then show ?thesis using s' b p by auto
qed

theorem comando_nao_reconhecido_witness:
  "map_option linha (exec [UartRx (''LIGA,BOMBA'' @ [LF])] init_state) = Some (Some ''LIGA,BOMBA'')
   \<and> \<not> reconhecido ''LIGA,BOMBA''
   \<and> (\<exists>s'. processa_comando (the (exec [UartRx (''LIGA,BOMBA'' @ [LF])] init_state)) = Some s'
           \<and> g_rx_buffer s' = replicate 100 NUL
           \<and> \<not> g_comando_pronto s'
           \<and> mesma_config (the (exec [UartRx (''LIGA,BOMBA'' @ [LF])] init_state)) s')"
proof -
  let ?s = "the (exec [UartRx (''LIGA,BOMBA'' @ [LF])] init_state)"
  have e: "map_option linha (exec [UartRx (''LIGA,BOMBA'' @ [LF])] init_state) = Some (Some ''LIGA,BOMBA'')"
    by code_simp
  then have h: "linha ?s = Some ''LIGA,BOMBA''"
    by (cases "exec [UartRx (''LIGA,BOMBA'' @ [LF])] init_state") simp_all
  have r: "\<not> reconhecido ''LIGA,BOMBA''" by code_simp
  from comando_nao_reconhecido[OF h] e r show ?thesis by blast
qed

text \<open>
  Claim C5 as stated fails for a malformed line that still contains a pattern: the line
  SET,HUMID,abc has no number after its last comma, and processing it takes the moisture
  setpoint from 3000 to 0.
\<close>

theorem comando_malformado_counterexample:
  "map_option linha (exec [UartRx (''SET,HUMID,abc'' @ [LF])] init_state) = Some (Some ''SET,HUMID,abc'')
   \<and> map_option g_umidade_setpoint_raw (exec [UartRx (''SET,HUMID,abc'' @ [LF])] init_state) = Some 3000
   \<and> map_option g_umidade_setpoint_raw
        (exec [UartRx (''SET,HUMID,abc'' @ [LF]), MainIter 0] init_state) = Some 0"
  by code_simp

section \<open>The photoperiod counter\<close>

lemma timer_run_append:
  "timer_run (xs @ ys) s = (case timer_run xs s of None \<Rightarrow> None | Some s' \<Rightarrow> timer_run ys s')"
  by (induction xs arbitrary: s) (simp_all split: option.split)

lemma filter_update_buffers_ok:
  assumes "buffers_ok s"
  shows "\<exists>s'. filter_update r s = Some s' \<and> buffers_ok s'
           \<and> g_contador_1s s' = g_contador_1s s
           \<and> g_segundos_de_luz_hoje s' = g_segundos_de_luz_hoje s
           \<and> led_pin s' = led_pin s \<and> g_ldr_limiar_raw s' = g_ldr_limiar_raw s"
proof -
  obtain x y z where r: "r = (x, y, z)" by (cases r) auto
  show ?thesis
    using assms by (simp add: filter_update_def r in_bounds_def buffers_ok_def Let_def)
qed

lemma conta_luz_efeito:
  "buffers_ok (conta_luz s) = buffers_ok s"
  "g_contador_1s (conta_luz s) = (if 10 \<le> g_contador_1s s + 1 then 0 else g_contador_1s s + 1)"
  "g_segundos_de_luz_hoje (conta_luz s) =
     (if 10 \<le> g_contador_1s s + 1 \<and> luz_presente (conta_luz s)
      then g_segundos_de_luz_hoje s + 1 else g_segundos_de_luz_hoje s)"
  "led_pin (conta_luz s) = led_pin s"
  "g_ldr_limiar_raw (conta_luz s) = g_ldr_limiar_raw s"
  by (simp_all add: conta_luz_def Let_def buffers_ok_def luz_presente_def led_ligado_def tem_sol_def)

lemma timer_callback_efeito:
  assumes "buffers_ok s"
  shows "\<exists>s'. timer_callback r s = Some s' \<and> buffers_ok s'
           \<and> g_contador_1s s' = (if 10 \<le> g_contador_1s s + 1 then 0 else g_contador_1s s + 1)
           \<and> g_segundos_de_luz_hoje s' =
               (if 10 \<le> g_contador_1s s + 1 \<and> luz_presente s'
                then g_segundos_de_luz_hoje s + 1 else g_segundos_de_luz_hoje s)
           \<and> led_pin s' = led_pin s \<and> g_ldr_limiar_raw s' = g_ldr_limiar_raw s"
proof -
  from filter_update_buffers_ok[OF assms, of r] obtain s1 where
    s1: "filter_update r s = Some s1" "buffers_ok s1" "g_contador_1s s1 = g_contador_1s s"
      "g_segundos_de_luz_hoje s1 = g_segundos_de_luz_hoje s"
      "led_pin s1 = led_pin s" "g_ldr_limiar_raw s1 = g_ldr_limiar_raw s" by blast
  have "timer_callback r s = Some (conta_luz s1)" by (simp add: timer_callback_def s1(1))
  then show ?thesis
    using conta_luz_efeito[of s1] s1(2-6) by simp
qed

lemma contador_menor:
  fixes x :: u32
  assumes "unat x < 9"
  shows "\<not> 10 \<le> x + 1" and "unat (x + 1) = unat x + 1"
proof -
  have "unat x + 1 < 2 ^ 32" using assms by simp
  then show u: "unat (x + 1) = unat x + 1" by (simp add: unat_word_ariths)
  show "\<not> 10 \<le> x + 1" using assms u by (simp add: word_le_nat_alt)
qed

lemma contador_nove:
  fixes x :: u32
  assumes "unat x = 9"
  shows "10 \<le> x + 1"
proof -
  have "unat (x + 1) = 10" using assms by (simp add: unat_word_ariths)
  then show ?thesis by (simp add: word_le_nat_alt)
qed

lemma timer_run_parcial:
  assumes "buffers_ok s" and "unat (g_contador_1s s) + length rs < 10"
  shows "\<exists>s'. timer_run rs s = Some s' \<and> buffers_ok s'
           \<and> unat (g_contador_1s s') = unat (g_contador_1s s) + length rs
           \<and> g_segundos_de_luz_hoje s' = g_segundos_de_luz_hoje s
           \<and> led_pin s' = led_pin s \<and> g_ldr_limiar_raw s' = g_ldr_limiar_raw s"
  using assms
proof (induction rs arbitrary: s)
  case Nil
  then show ?case by simp
next
  case (Cons r rs)
  from Cons.prems(2) have c: "unat (g_contador_1s s) < 9" by simp
  from timer_callback_efeito[OF Cons.prems(1), of r] contador_menor[OF c]
  obtain s1 where s1: "timer_callback r s = Some s1" "buffers_ok s1"
    "g_contador_1s s1 = g_contador_1s s + 1"
    "g_segundos_de_luz_hoje s1 = g_segundos_de_luz_hoje s"
    "led_pin s1 = led_pin s" "g_ldr_limiar_raw s1 = g_ldr_limiar_raw s" by auto
  have u: "unat (g_contador_1s s1) = unat (g_contador_1s s) + 1"
    using s1(3) contador_menor(2)[OF c] by simp
  with Cons.prems(2) have "unat (g_contador_1s s1) + length rs < 10" by simp
  from Cons.IH[OF s1(2) this] obtain s' where
    "timer_run rs s1 = Some s'" "buffers_ok s'"
    "unat (g_contador_1s s') = unat (g_contador_1s s1) + length rs"
    "g_segundos_de_luz_hoje s' = g_segundos_de_luz_hoje s1"
    "led_pin s' = led_pin s1" "g_ldr_limiar_raw s' = g_ldr_limiar_raw s1" by blast
  then show ?case using s1 u by simp
qed


text \<open>
  Claim C3. Start in a state with the tick counter at 0 (and the ring index in range), and let
  the callback run 10 times on any readings. It returns each time; the tick counter is 0
  again; if light was present after every one of the 10 invocations (the grow-light output
  on, or filtered light at or below the threshold), the seconds of light today have grown by
  exactly 1 (in \<^verbatim>\<open>uint32_t\<close>, and as a number unless the counter stood at its maximum); in any
  case they have grown by 1 or not at all, by 1 exactly when the output is on or the filtered
  light is at or below the threshold at the tenth invocation; and after any smaller number
  of invocations they are unchanged.
\<close>

theorem dez_ticks_um_segundo:
  assumes "buffers_ok s" and "g_contador_1s s = 0" and "length rs = 10"
  shows "\<exists>s'. timer_run rs s = Some s'
           \<and> g_contador_1s s' = 0
           \<and> (luz_continua rs s \<longrightarrow> g_segundos_de_luz_hoje s' = g_segundos_de_luz_hoje s + 1)
           \<and> (luz_continua rs s \<and> unat (g_segundos_de_luz_hoje s) < 2 ^ 32 - 1 \<longrightarrow>
                unat (g_segundos_de_luz_hoje s') = unat (g_segundos_de_luz_hoje s) + 1)
           \<and> g_segundos_de_luz_hoje s' =
               (if led_pin s' \<or> g_ldr_filtrado s' \<le> g_ldr_limiar_raw s'
                then g_segundos_de_luz_hoje s + 1 else g_segundos_de_luz_hoje s)
           \<and> led_pin s' = led_pin s
           \<and> g_ldr_limiar_raw s' = g_ldr_limiar_raw s
           \<and> (\<forall>k<10. \<exists>sk. timer_run (take k rs) s = Some sk
                  \<and> g_segundos_de_luz_hoje sk = g_segundos_de_luz_hoje s)"
proof -
  have pre: "\<exists>sk. timer_run (take k rs) s = Some sk \<and> buffers_ok sk
               \<and> unat (g_contador_1s sk) = k
               \<and> g_segundos_de_luz_hoje sk = g_segundos_de_luz_hoje s
               \<and> led_pin sk = led_pin s \<and> g_ldr_limiar_raw sk = g_ldr_limiar_raw s"
    if "k < 10" for k
    using timer_run_parcial[OF assms(1), of "take k rs"] that assms(2,3) by simp
  from pre[of 9] obtain s9 where s9: "timer_run (take 9 rs) s = Some s9" "buffers_ok s9"
    "unat (g_contador_1s s9) = 9" "g_segundos_de_luz_hoje s9 = g_segundos_de_luz_hoje s"
    and pin9: "led_pin s9 = led_pin s" "g_ldr_limiar_raw s9 = g_ldr_limiar_raw s" by auto
  have "take (Suc 9) rs = take 9 rs @ [rs ! 9]"
    using assms(3) by (intro take_Suc_conv_app_nth) simp
  moreover have "take (Suc 9) rs = rs" using assms(3) by simp
  ultimately have rs: "rs = take 9 rs @ [rs ! 9]" by simp
  have dez: "10 \<le> g_contador_1s s9 + 1" using s9(3) by (rule contador_nove)
  from timer_callback_efeito[OF s9(2), of "rs ! 9"]
  obtain s' where s': "timer_callback (rs ! 9) s9 = Some s'"
    and c': "g_contador_1s s' = (if 10 \<le> g_contador_1s s9 + 1 then 0 else g_contador_1s s9 + 1)"
    and g': "g_segundos_de_luz_hoje s' =
       (if 10 \<le> g_contador_1s s9 + 1 \<and> luz_presente s'
        then g_segundos_de_luz_hoje s9 + 1 else g_segundos_de_luz_hoje s9)"
    and pin': "led_pin s' = led_pin s9" "g_ldr_limiar_raw s' = g_ldr_limiar_raw s9"
    by blast
  have zero: "g_contador_1s s' = 0" using c' dez by simp
  have seg: "g_segundos_de_luz_hoje s' =
       (if led_pin s' \<or> g_ldr_filtrado s' \<le> g_ldr_limiar_raw s'
        then g_segundos_de_luz_hoje s + 1 else g_segundos_de_luz_hoje s)"
    using g' dez s9(4) by (simp add: luz_presente_def)
  have pin: "led_pin s' = led_pin s" and lim: "g_ldr_limiar_raw s' = g_ldr_limiar_raw s"
    using pin' pin9 by simp_all
  have run: "timer_run rs s = Some s'"
  proof -
    have "timer_run (take 9 rs @ [rs ! 9]) s = Some s'"
      by (simp add: timer_run_append s9(1) s')
    then show ?thesis using rs by simp
  qed
  have cont: "led_pin s' \<or> g_ldr_filtrado s' \<le> g_ldr_limiar_raw s'" if "luz_continua rs s"
  proof -
    have "10 \<in> set [1..<Suc (length rs)]" using assms(3) by simp
    with that have "case timer_run (take 10 rs) s of
        Some sk \<Rightarrow> led_pin sk \<or> g_ldr_filtrado sk \<le> g_ldr_limiar_raw sk | None \<Rightarrow> False"
      unfolding luz_continua_def list_all_iff by blast
    then show ?thesis using run assms(3) by simp
  qed
  have inc: "unat (g_segundos_de_luz_hoje s + 1) = unat (g_segundos_de_luz_hoje s) + 1"
    if "unat (g_segundos_de_luz_hoje s) < 2 ^ 32 - 1"
    using that by (simp add: unat_word_ariths)
  have c1: "luz_continua rs s \<longrightarrow> g_segundos_de_luz_hoje s' = g_segundos_de_luz_hoje s + 1"
    using cont seg by simp
  have c2: "luz_continua rs s \<and> unat (g_segundos_de_luz_hoje s) < 2 ^ 32 - 1 \<longrightarrow>
              unat (g_segundos_de_luz_hoje s') = unat (g_segundos_de_luz_hoje s) + 1"
    using cont seg inc by simp
  have c3: "\<forall>k<10. \<exists>sk. timer_run (take k rs) s = Some sk
              \<and> g_segundos_de_luz_hoje sk = g_segundos_de_luz_hoje s"
    using pre by blast
  show ?thesis
    using run zero c1 c2 seg pin lim c3 by (intro exI[of _ s'] conjI)
qed

text \<open>
  Two instances. From boot, with the output off and ten readings that keep the filtered light
  below the threshold 2000, the tenth tick counts the second. And in the state reached after
  the commands SET,LDR,0 and SET,FOTO,1, ten readings of 3200 and an iteration of the main
  loop, the tick counter is 0, the output is on and the threshold is 0; ten further readings
  of 3200 keep the filtered light above the threshold all along, and the second is counted
  because the output is on.
\<close>

theorem dez_ticks_um_segundo_witness:
  "buffers_ok init_state \<and> g_contador_1s init_state = 0
   \<and> length (replicate 10 ((1500, 0, 0) :: adc)) = 10
   \<and> luz_continua (replicate 10 (1500, 0, 0)) init_state
   \<and> map_option g_segundos_de_luz_hoje (timer_run (replicate 10 (1500, 0, 0)) init_state) = Some 1
   \<and> map_option g_segundos_de_luz_hoje (timer_run (replicate 9 (1500, 0, 0)) init_state) = Some 0
   \<and> map_option buffers_ok
        (exec ([UartRx (''SET,LDR,0'' @ [LF]), MainIter 0, UartRx (''SET,FOTO,1'' @ [LF])]
               @ replicate 10 (Timer (3200, 0, 0)) @ [MainIter 1]) init_state) = Some True
   \<and> map_option g_contador_1s
        (exec ([UartRx (''SET,LDR,0'' @ [LF]), MainIter 0, UartRx (''SET,FOTO,1'' @ [LF])]
               @ replicate 10 (Timer (3200, 0, 0)) @ [MainIter 1]) init_state) = Some 0
   \<and> map_option led_pin
        (exec ([UartRx (''SET,LDR,0'' @ [LF]), MainIter 0, UartRx (''SET,FOTO,1'' @ [LF])]
               @ replicate 10 (Timer (3200, 0, 0)) @ [MainIter 1]) init_state) = Some True
   \<and> map_option g_segundos_de_luz_hoje
        (exec ([UartRx (''SET,LDR,0'' @ [LF]), MainIter 0, UartRx (''SET,FOTO,1'' @ [LF])]
               @ replicate 10 (Timer (3200, 0, 0)) @ [MainIter 1]) init_state) = Some 0
   \<and> luz_continua (replicate 10 (3200, 0, 0))
        (the (exec ([UartRx (''SET,LDR,0'' @ [LF]), MainIter 0, UartRx (''SET,FOTO,1'' @ [LF])]
               @ replicate 10 (Timer (3200, 0, 0)) @ [MainIter 1]) init_state))
   \<and> (\<exists>s'. timer_run (replicate 10 (3200, 0, 0))
        (the (exec ([UartRx (''SET,LDR,0'' @ [LF]), MainIter 0, UartRx (''SET,FOTO,1'' @ [LF])]
               @ replicate 10 (Timer (3200, 0, 0)) @ [MainIter 1]) init_state)) = Some s'
          \<and> led_pin s' \<and> \<not> g_ldr_filtrado s' \<le> g_ldr_limiar_raw s'
          \<and> g_segundos_de_luz_hoje s' = 1)"
proof -
  let ?rs = "replicate 10 ((1500, 0, 0) :: adc)"
  have h1: "buffers_ok init_state" by (simp add: buffers_ok_def init_state_def)
  have h2: "g_contador_1s init_state = 0" by (simp add: init_state_def)
  have h3: "length ?rs = 10" by simp
  have h4: "luz_continua ?rs init_state" by code_simp
  have z: "g_segundos_de_luz_hoje init_state = 0" by (simp add: init_state_def)
  from dez_ticks_um_segundo[OF h1 h2 h3] h4 obtain s' where
    a: "timer_run ?rs init_state = Some s'"
    and b: "g_segundos_de_luz_hoje s' = g_segundos_de_luz_hoje init_state + 1"
    and c: "\<forall>k<10. \<exists>sk. timer_run (take k ?rs) init_state = Some sk
              \<and> g_segundos_de_luz_hoje sk = g_segundos_de_luz_hoje init_state"
    by blast
  from c have "\<exists>sk. timer_run (take 9 ?rs) init_state = Some sk
              \<and> g_segundos_de_luz_hoje sk = g_segundos_de_luz_hoje init_state" by simp
  then have d: "map_option g_segundos_de_luz_hoje (timer_run (replicate 9 (1500, 0, 0)) init_state) = Some 0"
    using z by auto
  have sol: "map_option g_segundos_de_luz_hoje (timer_run ?rs init_state) = Some 1"
    using a b z by simp
  let ?e = "exec ([UartRx (''SET,LDR,0'' @ [LF]), MainIter 0, UartRx (''SET,FOTO,1'' @ [LF])]
               @ replicate 10 (Timer (3200, 0, 0)) @ [MainIter 1]) init_state"
  let ?qs = "replicate 10 ((3200, 0, 0) :: adc)"
  have e1: "map_option buffers_ok ?e = Some True" by code_simp
  have e2: "map_option g_contador_1s ?e = Some 0" by code_simp
  have e3: "map_option led_pin ?e = Some True" by code_simp
  have e4: "map_option g_segundos_de_luz_hoje ?e = Some 0" by code_simp
  have e5: "luz_continua ?qs (the ?e)" by code_simp
  have e6: "\<not> g_ldr_filtrado (the (timer_run ?qs (the ?e))) \<le> g_ldr_limiar_raw (the (timer_run ?qs (the ?e)))"
    by code_simp
  have k1: "buffers_ok (the ?e)" using e1 by (cases ?e) simp_all
  have k2: "g_contador_1s (the ?e) = 0" using e2 by (cases ?e) simp_all
  have k3: "led_pin (the ?e)" using e3 by (cases ?e) simp_all
  have k4: "g_segundos_de_luz_hoje (the ?e) = 0" using e4 by (cases ?e) simp_all
  have k5: "length ?qs = 10" by simp
  from dez_ticks_um_segundo[OF k1 k2 k5] e5 obtain t' where
    ta: "timer_run ?qs (the ?e) = Some t'"
    and tb: "g_segundos_de_luz_hoje t' = g_segundos_de_luz_hoje (the ?e) + 1"
    and tc: "led_pin t' = led_pin (the ?e)"
    by blast
  have led: "\<exists>s'. timer_run ?qs (the ?e) = Some s'
          \<and> led_pin s' \<and> \<not> g_ldr_filtrado s' \<le> g_ldr_limiar_raw s'
          \<and> g_segundos_de_luz_hoje s' = 1"
    using ta tb tc k3 k4 e6 by simp
  show ?thesis
    using h1 h2 h3 h4 sol d e1 e2 e3 e4 e5 led by (intro conjI)
qed

section \<open>The command buffer\<close>

lemma on_uart_rx_append:
  "on_uart_rx (xs @ ys) s = (case on_uart_rx xs s of None \<Rightarrow> None | Some s' \<Rightarrow> on_uart_rx ys s')"
  by (induction xs arbitrary: s) (simp_all split: option.split)

lemma exec_UartRx: "exec (map UartRx chunks) s = on_uart_rx (concat chunks) s"
  by (induction chunks arbitrary: s) (simp_all add: on_uart_rx_append split: option.split)

text \<open>Characters of a line, none of them a terminator, are stored up to index 98 and then dropped.\<close>

lemma on_uart_rx_linha:
  assumes "rx_ok s" and "list_all (\<lambda>c. c \<noteq> LF \<and> c \<noteq> CR) l"
  shows "\<exists>s'. on_uart_rx l s = Some s' \<and> rx_ok s'
           \<and> g_rx_idx s' = min 99 (g_rx_idx s + int (length l))
           \<and> take (nat (g_rx_idx s')) (g_rx_buffer s') =
               take 99 (take (nat (g_rx_idx s)) (g_rx_buffer s) @ l)
           \<and> g_comando_pronto s' = g_comando_pronto s"
  using assms
proof (induction l arbitrary: s)
  case Nil
  then have "length (g_rx_buffer s) = 100" "0 \<le> g_rx_idx s" "g_rx_idx s \<le> 99"
    by (simp_all add: rx_ok_def)
  then have "nat (g_rx_idx s) \<le> 99" by simp
  then have "take 99 (take (nat (g_rx_idx s)) (g_rx_buffer s)) = take (nat (g_rx_idx s)) (g_rx_buffer s)"
    by (simp only: take_take min_absorb2)
  with Nil show ?case by (simp add: min_def rx_ok_def)
next
  case (Cons c l)
  let ?i = "nat (g_rx_idx s)"
  let ?b = "g_rx_buffer s"
  from Cons.prems have c: "c \<noteq> LF" "c \<noteq> CR" and l: "list_all (\<lambda>c. c \<noteq> LF \<and> c \<noteq> CR) l"
    by simp_all
  from Cons.prems(1) have len: "length ?b = 100" and lo: "0 \<le> g_rx_idx s" and hi: "g_rx_idx s \<le> 99"
    by (simp_all add: rx_ok_def)
  show ?case
  proof (cases "g_rx_idx s < 99")
    case True
    let ?s1 = "s\<lparr>g_rx_buffer := ?b[?i := c], g_rx_idx := g_rx_idx s + 1\<rparr>"
    have s1: "rx_char c s = Some ?s1"
      using rx_char_eq[OF Cons.prems(1), of c] c True by simp
    have ok1: "rx_ok ?s1" using rx_char_rx_ok[OF Cons.prems(1) s1] .
    have grow: "take (nat (g_rx_idx ?s1)) (g_rx_buffer ?s1) = take ?i ?b @ [c]"
      using len lo True by (simp add: nat_add_distrib take_Suc_conv_app_nth)
    from Cons.IH[OF ok1 l] obtain s' where
      r: "on_uart_rx l ?s1 = Some s'" and ok': "rx_ok s'"
      and i': "g_rx_idx s' = min 99 (g_rx_idx ?s1 + int (length l))"
      and b': "take (nat (g_rx_idx s')) (g_rx_buffer s') =
         take 99 (take (nat (g_rx_idx ?s1)) (g_rx_buffer ?s1) @ l)"
      and p': "g_comando_pronto s' = g_comando_pronto ?s1" by blast
    have run: "on_uart_rx (c # l) s = Some s'" using s1 r by simp
    have idx: "g_rx_idx s' = min 99 (g_rx_idx s + int (length (c # l)))"
      using i' by simp
    have "take (nat (g_rx_idx s')) (g_rx_buffer s') = take 99 ((take ?i ?b @ [c]) @ l)"
      using b' by (simp only: grow)
    then have buf: "take (nat (g_rx_idx s')) (g_rx_buffer s') = take 99 (take ?i ?b @ c # l)"
      by (simp only: append_assoc append_Cons append_Nil)
    have pr: "g_comando_pronto s' = g_comando_pronto s" using p' by simp
    show ?thesis
      using run ok' idx buf pr by (intro exI[of _ s'] conjI)
  next
    case False
    with hi have i99: "g_rx_idx s = 99" by simp
    have s1: "rx_char c s = Some s"
      using rx_char_eq[OF Cons.prems(1), of c] c False by simp
    from Cons.IH[OF Cons.prems(1) l] obtain s' where
      "on_uart_rx l s = Some s'" "rx_ok s'"
      "g_rx_idx s' = min 99 (g_rx_idx s + int (length l))"
      "take (nat (g_rx_idx s')) (g_rx_buffer s') = take 99 (take ?i ?b @ l)"
      "g_comando_pronto s' = g_comando_pronto s" by blast
    then show ?thesis
      using s1 i99 len by simp
  qed
qed

lemma cstr_take:
  assumes "n < length buf" and "buf ! n = NUL" and "NUL \<notin> set (take n buf)"
  shows "cstr buf = Some (take n buf)"
proof -
  have b: "buf = take n buf @ NUL # drop (Suc n) buf"
    using id_take_nth_drop[OF assms(1)] assms(2) by simp
  have "NUL \<in> set buf" using assms(1,2) nth_mem by fastforce
  moreover have "takeWhile (\<lambda>c. c \<noteq> NUL) (take n buf @ NUL # drop (Suc n) buf) = take n buf"
    using assms(3) by (auto simp: takeWhile_tail)
  ultimately show ?thesis using b by (simp add: cstr_def)
qed

text \<open>
  Claim C10. Every execution from boot returns: no access of any handler leaves its array, and
  the state it reaches has the 100 bytes of the command buffer and the cursor in \<open>[0, 99]\<close>. In
  such a state the interrupt, for one character, does exactly this: a terminator with the
  cursor above 0 writes NUL at the cursor, sets the flag and resets the cursor; a terminator at
  cursor 0 changes nothing; any other character is stored at the cursor, which moves on, when
  the cursor is below 99, and is dropped otherwise. A line \<open>l\<close> that arrives from cursor 0, in
  any number of interrupts with nothing else in between, followed by its terminator, leaves the
  flag set, the cursor at 0, the first 99 characters of \<open>l\<close> at the start of the buffer and NUL
  after them; when \<open>l\<close> has no NUL byte, the C string in the buffer is \<open>take 99 l\<close>.
\<close>

theorem rx_buffer_seguro:
  "(\<exists>s. exec es init_state = Some s
       \<and> length (g_rx_buffer s) = 100 \<and> 0 \<le> g_rx_idx s \<and> g_rx_idx s \<le> 99)
   \<and> (exec es init_state = Some s \<longrightarrow>
        rx_char c s =
          Some (if c = LF \<or> c = CR then
                  (if 0 < g_rx_idx s
                   then s\<lparr>g_rx_buffer := (g_rx_buffer s)[nat (g_rx_idx s) := NUL],
                          g_comando_pronto := True, g_rx_idx := 0\<rparr>
                   else s)
                else if g_rx_idx s < 99
                then s\<lparr>g_rx_buffer := (g_rx_buffer s)[nat (g_rx_idx s) := c],
                       g_rx_idx := g_rx_idx s + 1\<rparr>
                else s))
   \<and> (exec es init_state = Some s \<and> g_rx_idx s = 0 \<and> l \<noteq> []
        \<and> list_all (\<lambda>c. c \<noteq> LF \<and> c \<noteq> CR) l \<and> (t = LF \<or> t = CR)
        \<and> concat chunks = l @ [t] \<longrightarrow>
        (\<exists>s'. exec (map UartRx chunks) s = Some s'
           \<and> g_comando_pronto s' \<and> g_rx_idx s' = 0
           \<and> take (min 99 (length l)) (g_rx_buffer s') = take 99 l
           \<and> g_rx_buffer s' ! min 99 (length l) = NUL
           \<and> (NUL \<notin> set l \<longrightarrow> linha s' = Some (take 99 l))))"
proof -
  have a: "\<exists>s. exec es init_state = Some s
       \<and> length (g_rx_buffer s) = 100 \<and> 0 \<le> g_rx_idx s \<and> g_rx_idx s \<le> 99"
    using exec_inv[OF inv_init, of es] by (auto simp: inv_def rx_ok_def)
  have c: "\<exists>s'. exec (map UartRx chunks) s = Some s'
           \<and> g_comando_pronto s' \<and> g_rx_idx s' = 0
           \<and> take (min 99 (length l)) (g_rx_buffer s') = take 99 l
           \<and> g_rx_buffer s' ! min 99 (length l) = NUL
           \<and> (NUL \<notin> set l \<longrightarrow> linha s' = Some (take 99 l))"
    if r: "exec es init_state = Some s" and z: "g_rx_idx s = 0" and ne: "l \<noteq> []"
      and cl: "list_all (\<lambda>c. c \<noteq> LF \<and> c \<noteq> CR) l" and t: "t = LF \<or> t = CR"
      and ch: "concat chunks = l @ [t]"
  proof -
    let ?m = "min 99 (length l)"
    have ok: "rx_ok s" using r by (rule reach_rx_ok)
    from on_uart_rx_linha[OF ok cl] z obtain s1 where
      s1: "on_uart_rx l s = Some s1" and ok1: "rx_ok s1"
      and i1: "g_rx_idx s1 = min 99 (int (length l))"
      and b1: "take (nat (g_rx_idx s1)) (g_rx_buffer s1) = take 99 l" by auto
    have m: "nat (g_rx_idx s1) = ?m" using i1 by (simp add: min_def)
    have pos: "0 < g_rx_idx s1" using i1 ne by (simp add: min_def)
    have len1: "length (g_rx_buffer s1) = 100" using ok1 by (simp add: rx_ok_def)
    have mlt: "?m < 100" by simp
    let ?s' = "s1\<lparr>g_rx_buffer := (g_rx_buffer s1)[?m := NUL], g_comando_pronto := True, g_rx_idx := 0\<rparr>"
    have s': "rx_char t s1 = Some ?s'"
      using rx_char_eq[OF ok1, of t] t pos m by auto
    have run: "exec (map UartRx chunks) s = Some ?s'"
      by (simp add: exec_UartRx ch on_uart_rx_append s1 s')
    have tk: "take ?m (g_rx_buffer ?s') = take 99 l"
      using b1 m by simp
    have nl: "g_rx_buffer ?s' ! ?m = NUL"
      using len1 mlt by simp
    have ln: "linha ?s' = Some (take 99 l)" if "NUL \<notin> set l"
    proof -
      have x: "NUL \<notin> set (take 99 l)" using that by (meson in_set_takeD)
      have "NUL \<notin> set (take ?m (g_rx_buffer ?s'))" unfolding tk by (rule x)
      moreover have "?m < length (g_rx_buffer ?s')" using len1 mlt by simp
      ultimately have "cstr (g_rx_buffer ?s') = Some (take ?m (g_rx_buffer ?s'))"
        using nl by (intro cstr_take)
      then show ?thesis by (simp only: linha_def tk)
    qed
    show ?thesis
      using run tk nl ln by (intro exI[of _ ?s'] conjI) simp_all
  qed
  show ?thesis
    using a rx_char_eq[OF reach_rx_ok, of es s c] c by blast
qed

theorem rx_buffer_seguro_witness:
  "exec [] init_state = Some init_state \<and> g_rx_idx init_state = 0
   \<and> replicate 120 (CHR ''A'') \<noteq> []
   \<and> list_all (\<lambda>c. c \<noteq> LF \<and> c \<noteq> CR) (replicate 120 (CHR ''A''))
   \<and> concat [replicate 60 (CHR ''A''), replicate 60 (CHR ''A'') @ [LF]] = replicate 120 (CHR ''A'') @ [LF]
   \<and> (\<exists>s'. exec (map UartRx [replicate 60 (CHR ''A''), replicate 60 (CHR ''A'') @ [LF]]) init_state = Some s'
          \<and> g_comando_pronto s' \<and> g_rx_idx s' = 0
          \<and> linha s' = Some (replicate 99 (CHR ''A'')))"
proof -
  let ?l = "replicate 120 (CHR ''A'')"
  let ?chunks = "[replicate 60 (CHR ''A''), replicate 60 (CHR ''A'') @ [LF]]"
  have h1: "exec [] init_state = Some init_state" by simp
  have h2: "g_rx_idx init_state = 0" by (simp add: init_state_def)
  have h3: "?l \<noteq> []" by simp
  have h4: "list_all (\<lambda>c. c \<noteq> LF \<and> c \<noteq> CR) ?l" by (simp add: list_all_iff)
  have h5: "concat ?chunks = ?l @ [LF]" by (simp flip: replicate_add)
  have h6: "NUL \<notin> set ?l" by simp
  have t: "take 99 ?l = replicate 99 (CHR ''A'')" by simp
  from rx_buffer_seguro[of "[]" init_state _ ?l LF ?chunks] h1 h2 h3 h4 h5 h6
  obtain s' where "exec (map UartRx ?chunks) init_state = Some s'"
    "g_comando_pronto s'" "g_rx_idx s' = 0" "linha s' = Some (take 99 ?l)"
    by blast
  then show ?thesis using h1 h2 h3 h4 h5 t by (intro conjI exI[of _ s']) simp_all
qed

text \<open>
  Claim C6, as amended. In a state an execution from boot can reach, the interrupt, for one
  character, returns, and the flag afterwards is set exactly if it was set before or the
  character is a terminator arriving with the cursor above 0. In that case the cursor was at
  most 99, the byte at the cursor is now NUL, the bytes before it are unchanged and contain no
  terminator, and the cursor is back at 0; when no NUL byte is among them, they are the C
  string the buffer holds, and it is not empty. A terminator at cursor 0 changes nothing.
  Whether or not the flag is set, any other character is stored at the cursor when the cursor
  is below 99 (the flag keeps its value), and changes nothing at cursor 99.
\<close>

theorem pronto_e_buffer:
  assumes "exec es init_state = Some s"
  shows "\<exists>s'. rx_char c s = Some s'
           \<and> g_comando_pronto s' = (g_comando_pronto s \<or> ((c = LF \<or> c = CR) \<and> 0 < g_rx_idx s))
           \<and> ((c = LF \<or> c = CR) \<and> 0 < g_rx_idx s \<longrightarrow>
                 g_rx_idx s \<le> 99
                 \<and> g_rx_buffer s' ! nat (g_rx_idx s) = NUL
                 \<and> take (nat (g_rx_idx s)) (g_rx_buffer s') = take (nat (g_rx_idx s)) (g_rx_buffer s)
                 \<and> list_all (\<lambda>x. x \<noteq> LF \<and> x \<noteq> CR) (take (nat (g_rx_idx s)) (g_rx_buffer s'))
                 \<and> (NUL \<notin> set (take (nat (g_rx_idx s)) (g_rx_buffer s)) \<longrightarrow>
                      linha s' = Some (take (nat (g_rx_idx s)) (g_rx_buffer s))
                      \<and> linha s' \<noteq> Some [])
                 \<and> g_rx_idx s' = 0)
           \<and> ((c = LF \<or> c = CR) \<and> g_rx_idx s = 0 \<longrightarrow> s' = s)
           \<and> (c \<noteq> LF \<and> c \<noteq> CR \<and> g_rx_idx s < 99 \<longrightarrow>
                 g_rx_buffer s' = (g_rx_buffer s)[nat (g_rx_idx s) := c]
                 \<and> g_rx_buffer s' ! nat (g_rx_idx s) = c
                 \<and> g_comando_pronto s' = g_comando_pronto s)
           \<and> (c \<noteq> LF \<and> c \<noteq> CR \<and> g_rx_idx s = 99 \<longrightarrow> s' = s)"
proof -
  let ?i = "nat (g_rx_idx s)"
  let ?b = "g_rx_buffer s"
  have ok: "rx_ok s" using assms by (rule reach_rx_ok)
  then have len: "length ?b = 100" and lo: "0 \<le> g_rx_idx s" and hi: "g_rx_idx s \<le> 99"
    and clean: "list_all (\<lambda>c. c \<noteq> LF \<and> c \<noteq> CR) (take ?i ?b)"
    by (simp_all add: rx_ok_def)
  have ilt: "?i < length ?b" using len lo hi by simp
  note eq = rx_char_eq[OF ok, of c]
  consider (fim) "(c = LF \<or> c = CR)" "0 < g_rx_idx s"
    | (vazio) "(c = LF \<or> c = CR)" "g_rx_idx s = 0"
    | (guarda) "c \<noteq> LF" "c \<noteq> CR" "g_rx_idx s < 99"
    | (cheio) "c \<noteq> LF" "c \<noteq> CR" "g_rx_idx s = 99"
    using lo hi by fastforce
  then show ?thesis
  proof cases
    case fim
    let ?s' = "s\<lparr>g_rx_buffer := ?b[?i := NUL], g_comando_pronto := True, g_rx_idx := 0\<rparr>"
    have r: "rx_char c s = Some ?s'" using eq fim by simp
    have n: "g_rx_buffer ?s' ! ?i = NUL" using ilt by simp
    have t: "take ?i (g_rx_buffer ?s') = take ?i ?b" by simp
    have ne: "take ?i ?b \<noteq> []" using fim(2) len by auto
    have ln: "linha ?s' = Some (take ?i ?b) \<and> linha ?s' \<noteq> Some []"
      if "NUL \<notin> set (take ?i ?b)"
    proof -
      have "NUL \<notin> set (take ?i (g_rx_buffer ?s'))" using that by simp
      moreover have "?i < length (g_rx_buffer ?s')" using ilt by simp
      ultimately have "cstr (g_rx_buffer ?s') = Some (take ?i (g_rx_buffer ?s'))"
        using n by (intro cstr_take)
      then show ?thesis using ne by (simp add: linha_def)
    qed
    have cl': "list_all (\<lambda>x. x \<noteq> LF \<and> x \<noteq> CR) (take ?i (g_rx_buffer ?s'))"
      unfolding t by (rule clean)
    have z: "g_rx_idx ?s' = 0" by simp
    have p1: "g_comando_pronto ?s' = (g_comando_pronto s \<or> ((c = LF \<or> c = CR) \<and> 0 < g_rx_idx s))"
      using fim by simp
    have p2: "g_rx_idx s \<le> 99
                 \<and> g_rx_buffer ?s' ! nat (g_rx_idx s) = NUL
                 \<and> take (nat (g_rx_idx s)) (g_rx_buffer ?s') = take (nat (g_rx_idx s)) (g_rx_buffer s)
                 \<and> list_all (\<lambda>x. x \<noteq> LF \<and> x \<noteq> CR) (take (nat (g_rx_idx s)) (g_rx_buffer ?s'))
                 \<and> (NUL \<notin> set (take (nat (g_rx_idx s)) (g_rx_buffer s)) \<longrightarrow>
                      linha ?s' = Some (take (nat (g_rx_idx s)) (g_rx_buffer s))
                      \<and> linha ?s' \<noteq> Some [])
                 \<and> g_rx_idx ?s' = 0"
      using hi n t cl' ln z by blast
    have p3: "\<not> ((c = LF \<or> c = CR) \<and> g_rx_idx s = 0)" using fim by simp
    have p4: "\<not> (c \<noteq> LF \<and> c \<noteq> CR \<and> g_rx_idx s < 99)" using fim by blast
    have p5: "\<not> (c \<noteq> LF \<and> c \<noteq> CR \<and> g_rx_idx s = 99)" using fim by blast
    show ?thesis
      using r p1 p2 p3 p4 p5 by blast
  next
    case vazio
    have r: "rx_char c s = Some s" using eq vazio by simp
    have p1: "g_comando_pronto s = (g_comando_pronto s \<or> ((c = LF \<or> c = CR) \<and> 0 < g_rx_idx s))"
      using vazio by simp
    have p2: "\<not> ((c = LF \<or> c = CR) \<and> 0 < g_rx_idx s)" using vazio by simp
    have p4: "\<not> (c \<noteq> LF \<and> c \<noteq> CR \<and> g_rx_idx s < 99)" using vazio by blast
    have p5: "\<not> (c \<noteq> LF \<and> c \<noteq> CR \<and> g_rx_idx s = 99)" using vazio by blast
    show ?thesis
      using r p1 p2 p4 p5 by blast
  next
    case guarda
    let ?s' = "s\<lparr>g_rx_buffer := ?b[?i := c], g_rx_idx := g_rx_idx s + 1\<rparr>"
    have r: "rx_char c s = Some ?s'" using eq guarda by simp
    have p1: "g_comando_pronto ?s' = (g_comando_pronto s \<or> ((c = LF \<or> c = CR) \<and> 0 < g_rx_idx s))"
      using guarda by simp
    have p2: "\<not> ((c = LF \<or> c = CR) \<and> 0 < g_rx_idx s)" using guarda by simp
    have p3: "\<not> ((c = LF \<or> c = CR) \<and> g_rx_idx s = 0)" using guarda by simp
    have p4: "g_rx_buffer ?s' = (g_rx_buffer s)[nat (g_rx_idx s) := c]
                 \<and> g_rx_buffer ?s' ! nat (g_rx_idx s) = c
                 \<and> g_comando_pronto ?s' = g_comando_pronto s"
      using ilt by simp
    have p5: "\<not> (c \<noteq> LF \<and> c \<noteq> CR \<and> g_rx_idx s = 99)" using guarda by simp
    show ?thesis
      using r p1 p2 p3 p4 p5 by blast
  next
    case cheio
    have r: "rx_char c s = Some s" using eq cheio by simp
    have p1: "g_comando_pronto s = (g_comando_pronto s \<or> ((c = LF \<or> c = CR) \<and> 0 < g_rx_idx s))"
      using cheio by simp
    have p2: "\<not> ((c = LF \<or> c = CR) \<and> 0 < g_rx_idx s)" using cheio by simp
    have p3: "\<not> ((c = LF \<or> c = CR) \<and> g_rx_idx s = 0)" using cheio by simp
    have p4: "\<not> (c \<noteq> LF \<and> c \<noteq> CR \<and> g_rx_idx s < 99)" using cheio by simp
    show ?thesis
      using r p1 p2 p3 p4 by blast
  qed
qed

theorem pronto_e_buffer_witness:
  "exec [UartRx ''AB''] init_state \<noteq> None
   \<and> map_option linha (exec [UartRx ''AB'', UartRx [LF]] init_state) = Some (Some ''AB'')
   \<and> map_option g_comando_pronto (exec [UartRx ''AB'', UartRx [LF]] init_state) = Some True"
proof -
  obtain s where s: "exec [UartRx ''AB''] init_state = Some s"
    using exec_inv[OF inv_init, of "[UartRx ''AB'']"] by blast
  have "map_option linha (exec [UartRx ''AB'', UartRx [LF]] init_state) = Some (Some ''AB'')"
    "map_option g_comando_pronto (exec [UartRx ''AB'', UartRx [LF]] init_state) = Some True"
    by code_simp+
  then show ?thesis using s pronto_e_buffer[OF s, of LF] by simp
qed

text \<open>
  Claim C6 as stated fails. After the line AB and its terminator the flag is set and the
  buffer holds AB; a further character C, arriving before any iteration of the main loop, is
  written at index 0 while the flag is still set, and the buffer holds CB. And a NUL byte
  followed by a terminator sets the flag over a buffer that holds the empty string.
\<close>

theorem escrita_com_pronto_counterexample:
  "map_option g_comando_pronto (exec [UartRx (''AB'' @ [LF])] init_state) = Some True
   \<and> map_option linha (exec [UartRx (''AB'' @ [LF])] init_state) = Some (Some ''AB'')
   \<and> map_option g_comando_pronto (exec [UartRx (''AB'' @ [LF]), UartRx ''C''] init_state) = Some True
   \<and> map_option linha (exec [UartRx (''AB'' @ [LF]), UartRx ''C''] init_state) = Some (Some ''CB'')
   \<and> map_option g_comando_pronto (exec [UartRx [NUL, LF]] init_state) = Some True
   \<and> map_option linha (exec [UartRx [NUL, LF]] init_state) = Some (Some [])"
  by code_simp

end
